theory Spec2Isabelle
  imports Complex_Main
begin

section \<open>The gesture detector of synesthesia/gesture_detection.py\<close>

text \<open>
  The theory embeds the class \<^verbatim>\<open>GestureDetector\<close>: its constructor, \<^verbatim>\<open>_debounce\<close>,
  \<^verbatim>\<open>_get_min_distance\<close> and \<^verbatim>\<open>detect\<close>. Python floats are modelled as real numbers
  (no rounding), Python's unbounded integers as \<open>int\<close>. The MediaPipe hand tracker and
  OpenCV are outside the program: what \<^verbatim>\<open>self.hands.process(rgb)\<close> reports for a frame is
  part of the input, and the wall clock \<^verbatim>\<open>time.time()\<close> is a sequence of readings.
\<close>

subsection \<open>Data\<close>

text \<open>One landmark of a hand skeleton; only \<^verbatim>\<open>.x\<close> and \<^verbatim>\<open>.y\<close> are ever read.\<close>

record landmark =
  lm_x :: real
  lm_y :: real

text \<open>\<^verbatim>\<open>handLms.landmark\<close>: the indexable sequence of landmarks of one hand.\<close>

type_synonym hand = "landmark list"

text \<open>
  A frame as \<^verbatim>\<open>detect\<close> sees it: \<^verbatim>\<open>frame.shape\<close> (height, width; three channels) and
  \<^verbatim>\<open>results.multi_hand_landmarks\<close>, which is \<^verbatim>\<open>None\<close> or a list of hands.
\<close>

record frame =
  height :: nat
  width :: nat
  multi_hand_landmarks :: "hand list option"

text \<open>The exceptions the modelled code can raise.\<close>

datatype error = IndexError | AttributeError

text \<open>
  The wall clock: reading number \<open>n\<close> of \<^verbatim>\<open>time.time()\<close> returns \<open>clk n\<close>. Nothing is
  assumed about the readings.
\<close>

type_synonym clock = "nat \<Rightarrow> real"

text \<open>
  The attributes of a \<^verbatim>\<open>GestureDetector\<close> object. The attributes \<^verbatim>\<open>clap_dist_history\<close>,
  \<^verbatim>\<open>wave_prev_time\<close> and \<^verbatim>\<open>wave_start_pos\<close> are created on first use and tested with
  \<^verbatim>\<open>hasattr\<close>: \<open>None\<close> is the absent attribute. \<open>time_calls\<close> is not an attribute: it
  counts the calls of \<^verbatim>\<open>time.time()\<close> made so far, and so selects the next clock reading.
  The MediaPipe handles \<^verbatim>\<open>mp_hands\<close> and \<^verbatim>\<open>hands\<close> are external objects and left out.
\<close>

record detector =
  last_gesture_time :: "string \<rightharpoonup> real"
  debounce_time :: real
  clap_state :: string
  prev_dist :: "real option"
  prev_time :: "real option"
  dist_threshold_apart :: real
  dist_threshold_close :: real
  speed_threshold_close :: real
  speed_threshold_apart :: real
  clap_dist_history :: "real list option"
  wave_prev_time :: "real option"
  wave_start_pos :: "real option"
  time_calls :: nat

text \<open>\<^verbatim>\<open>__init__(self, debounce_time=0.5)\<close>\<close>

definition init :: "real \<Rightarrow> detector" where
  "init dt =
     \<lparr> last_gesture_time = Map.empty,
       debounce_time = dt,
       clap_state = ''apart'',
       prev_dist = None,
       prev_time = None,
       dist_threshold_apart = 120,
       dist_threshold_close = 70,
       speed_threshold_close = 300,
       speed_threshold_apart = 200,
       clap_dist_history = None,
       wave_prev_time = None,
       wave_start_pos = None,
       time_calls = 0 \<rparr>"

subsection \<open>The clock and the debounce gate\<close>

text \<open>\<^verbatim>\<open>time.time()\<close>: the next reading, and the count of readings moves on.\<close>

definition time_time :: "clock \<Rightarrow> detector \<Rightarrow> real \<times> detector" where
  "time_time clk s = (clk (time_calls s), s\<lparr>time_calls := Suc (time_calls s)\<rparr>)"

text \<open>\<^verbatim>\<open>self.last_gesture_time.get(gesture, 0)\<close>\<close>

definition last_time :: "detector \<Rightarrow> string \<Rightarrow> real" where
  "last_time s gesture = (case last_gesture_time s gesture of None \<Rightarrow> 0 | Some t \<Rightarrow> t)"

text \<open>\<^verbatim>\<open>_debounce(self, gesture)\<close>, lines 29-35.\<close>

definition debounce :: "clock \<Rightarrow> string \<Rightarrow> detector \<Rightarrow> bool \<times> detector" where
  "debounce clk gesture s =
     (let (now, s1) = time_time clk s in
      if now - last_time s1 gesture > debounce_time s1
      then (True, s1\<lparr>last_gesture_time := (last_gesture_time s1)(gesture \<mapsto> now)\<rparr>)
      else (False, s1))"

subsection \<open>Geometry\<close>

text \<open>\<^verbatim>\<open>landmarks.landmark[i]\<close> for \<open>i \<ge> 0\<close>: an index past the end raises.\<close>

definition landmark_at :: "hand \<Rightarrow> nat \<Rightarrow> error + landmark" where
  "landmark_at h i = (if i < length h then Inr (h ! i) else Inl IndexError)"

text \<open>Python's \<^verbatim>\<open>int(r)\<close> on a float: truncation towards zero.\<close>

definition py_int :: "real \<Rightarrow> int" where
  "py_int r = (if 0 \<le> r then \<lfloor>r\<rfloor> else \<lceil>r\<rceil>)"

text \<open>\<^verbatim>\<open>np.hypot(a, b)\<close> and the 2-norm of a difference of points.\<close>

definition hypot :: "real \<Rightarrow> real \<Rightarrow> real" where
  "hypot a b = sqrt (a\<^sup>2 + b\<^sup>2)"

text \<open>
  Lines 64-68 of \<^verbatim>\<open>detect\<close>: the distance of the two wrists (landmark 0 of each hand),
  each coordinate scaled to pixels and truncated to an integer.
\<close>

definition wrist_dist :: "nat \<Rightarrow> nat \<Rightarrow> landmark \<Rightarrow> landmark \<Rightarrow> real" where
  "wrist_dist h w hand1 hand2 =
     (let x1 = py_int (lm_x hand1 * real w); y1 = py_int (lm_y hand1 * real h);
          x2 = py_int (lm_x hand2 * real w); y2 = py_int (lm_y hand2 * real h)
      in hypot (of_int (x2 - x1)) (of_int (y2 - y1)))"

text \<open>
  Lines 43-47 of \<^verbatim>\<open>_get_min_distance\<close>: the palm centre of one hand, the mean of the
  wrist (landmark 0) and the base of the middle finger (landmark 9), in pixels.
\<close>

definition palm :: "nat \<Rightarrow> nat \<Rightarrow> hand \<Rightarrow> error + real \<times> real" where
  "palm h w landmarks =
     (case landmark_at landmarks 0 of Inl e \<Rightarrow> Inl e
      | Inr l0 \<Rightarrow>
        (case landmark_at landmarks 9 of Inl e \<Rightarrow> Inl e
         | Inr l9 \<Rightarrow>
           Inr ((lm_x l0 * real w + lm_x l9 * real w) / 2,
                (lm_y l0 * real h + lm_y l9 * real h) / 2)))"

fun palms :: "nat \<Rightarrow> nat \<Rightarrow> hand list \<Rightarrow> error + (real \<times> real) list" where
  "palms h w [] = Inr []"
| "palms h w (l # ls) =
     (case palm h w l of Inl e \<Rightarrow> Inl e
      | Inr p \<Rightarrow> (case palms h w ls of Inl e \<Rightarrow> Inl e | Inr ps \<Rightarrow> Inr (p # ps)))"

text \<open>\<^verbatim>\<open>_get_min_distance(self, hand_landmarks, frame_shape)\<close>, lines 37-52.\<close>

definition get_min_distance :: "hand list \<Rightarrow> nat \<times> nat \<Rightarrow> error + real option" where
  "get_min_distance hand_landmarks frame_shape =
     (let (h, w) = frame_shape in
      case palms h w hand_landmarks of Inl e \<Rightarrow> Inl e
      | Inr hands \<Rightarrow>
        if length hands = 2
        then Inr (Some (hypot (fst (hands ! 0) - fst (hands ! 1)) (snd (hands ! 0) - snd (hands ! 1))))
        else Inr None)"

subsection \<open>The clap history\<close>

text \<open>
  Lines 71-75: create the history if absent, append the distance, and pop the oldest entry
  when more than 10 are held.
\<close>

definition append_trim :: "real list option \<Rightarrow> real \<Rightarrow> real list" where
  "append_trim hist d =
     (let xs = (case hist of None \<Rightarrow> [] | Some ys \<Rightarrow> ys) @ [d]
      in if length xs > 10 then tl xs else xs)"

text \<open>Line 77: \<^verbatim>\<open>any(d > 200 for d in self.clap_dist_history[:-2])\<close>\<close>

definition was_far :: "real list \<Rightarrow> bool" where
  "was_far xs = list_ex (\<lambda>d. d > 200) (take (length xs - 2) xs)"

text \<open>
  Lines 70-79 for the distance \<open>d\<close> (the variable \<^verbatim>\<open>dist\<close>): the history is
  updated, and the result says whether the
  condition of line 79 holds (a clap candidate, handed to the debounce gate next).
\<close>

definition clap_observe :: "real \<Rightarrow> detector \<Rightarrow> bool \<times> detector" where
  "clap_observe d s =
     (let xs = append_trim (clap_dist_history s) d
      in (was_far xs \<and> d < 120, s\<lparr>clap_dist_history := Some xs\<rparr>))"

subsection \<open>Finger states\<close>

text \<open>Lines 94-97: the thumb, tip 4 against joint 3, compared in \<^verbatim>\<open>x\<close>.\<close>

definition thumb_bit :: "hand \<Rightarrow> error + nat" where
  "thumb_bit h =
     (case landmark_at h 4 of Inl e \<Rightarrow> Inl e
      | Inr a \<Rightarrow>
        (case landmark_at h 3 of Inl e \<Rightarrow> Inl e
         | Inr b \<Rightarrow> Inr (if lm_x a < lm_x b then 1 else 0)))"

text \<open>Lines 101-104: another finger, its tip against the joint two indices before, in \<^verbatim>\<open>y\<close>.\<close>

definition finger_bit :: "hand \<Rightarrow> nat \<Rightarrow> error + nat" where
  "finger_bit h tip =
     (case landmark_at h tip of Inl e \<Rightarrow> Inl e
      | Inr a \<Rightarrow>
        (case landmark_at h (tip - 2) of Inl e \<Rightarrow> Inl e
         | Inr b \<Rightarrow> Inr (if lm_y a < lm_y b then 1 else 0)))"

text \<open>Line 100: the loop over \<^verbatim>\<open>tips[1:]\<close>.\<close>

fun other_fingers :: "hand \<Rightarrow> nat list \<Rightarrow> error + nat list" where
  "other_fingers h [] = Inr []"
| "other_fingers h (tip # tips) =
     (case finger_bit h tip of Inl e \<Rightarrow> Inl e
      | Inr b \<Rightarrow> (case other_fingers h tips of Inl e \<Rightarrow> Inl e | Inr bs \<Rightarrow> Inr (b # bs)))"

text \<open>Lines 90-104: the list \<^verbatim>\<open>fingers\<close> of one hand.\<close>

definition fingers :: "hand \<Rightarrow> error + nat list" where
  "fingers h =
     (case thumb_bit h of Inl e \<Rightarrow> Inl e
      | Inr t \<Rightarrow>
        (case other_fingers h [8, 12, 16, 20] of Inl e \<Rightarrow> Inl e | Inr bs \<Rightarrow> Inr (t # bs)))"

subsection \<open>The loop over the hands\<close>

text \<open>
  Lines 106-109. The variable \<^verbatim>\<open>gesture\<close> is passed in and returned; the gate is asked
  only when the pattern matches.
\<close>

definition thumbs_step ::
  "clock \<Rightarrow> nat list \<Rightarrow> string option \<Rightarrow> detector \<Rightarrow> string option \<times> detector" where
  "thumbs_step clk fs gesture s =
     (if fs = [1, 0, 0, 0, 0]
      then (let (ok, s1) = debounce clk ''thumbs_up'' s
            in (if ok then Some ''thumbs_up'' else gesture, s1))
      else (gesture, s))"

text \<open>
  Lines 112-126. \<open>w\<close> is \<^verbatim>\<open>frame.shape[1]\<close>. Reading \<^verbatim>\<open>self.wave_start_pos\<close> when the
  attribute is absent raises AttributeError.
\<close>

definition wave_step ::
  "clock \<Rightarrow> nat \<Rightarrow> hand \<Rightarrow> nat list \<Rightarrow> string option \<Rightarrow> detector
     \<Rightarrow> (error + string option) \<times> detector" where
  "wave_step clk w h fs gesture s =
     (if fs = [1, 1, 1, 1, 1]
      then (case wave_prev_time s of
              None \<Rightarrow>
                (let (t, s1) = time_time clk s in
                 case landmark_at h 0 of Inl e \<Rightarrow> (Inl e, s1\<lparr>wave_prev_time := Some t\<rparr>)
                 | Inr l0 \<Rightarrow>
                     (Inr gesture, s1\<lparr>wave_prev_time := Some t, wave_start_pos := Some (lm_x l0)\<rparr>))
            | Some pt \<Rightarrow>
                (let (t, s1) = time_time clk s in
                 if t - pt < 1
                 then (case landmark_at h 0 of Inl e \<Rightarrow> (Inl e, s1)
                       | Inr l0 \<Rightarrow>
                         (case wave_start_pos s1 of None \<Rightarrow> (Inl AttributeError, s1)
                          | Some sp \<Rightarrow>
                              (let movement = \<bar>lm_x l0 - sp\<bar> * real w in
                               if movement > 60
                               then (let (ok, s2) = debounce clk ''wave'' s1
                                     in (Inr (if ok then Some ''wave'' else gesture), s2))
                               else (Inr gesture, s1))))
                 else (let (t2, s2) = time_time clk s1 in
                       case landmark_at h 0 of Inl e \<Rightarrow> (Inl e, s2\<lparr>wave_prev_time := Some t2\<rparr>)
                       | Inr l0 \<Rightarrow>
                           (Inr gesture,
                            s2\<lparr>wave_prev_time := Some t2, wave_start_pos := Some (lm_x l0)\<rparr>))))
      else (Inr gesture, s))"

text \<open>Lines 90-126: the body of the loop for one hand.\<close>

definition hand_step ::
  "clock \<Rightarrow> nat \<Rightarrow> hand \<Rightarrow> string option \<Rightarrow> detector \<Rightarrow> (error + string option) \<times> detector" where
  "hand_step clk w h gesture s =
     (case fingers h of Inl e \<Rightarrow> (Inl e, s)
      | Inr fs \<Rightarrow>
          (let (g1, s1) = thumbs_step clk fs gesture s
           in wave_step clk w h fs g1 s1))"

text \<open>Line 89: the loop; an exception ends it, with the state as changed so far.\<close>

fun process_hands ::
  "clock \<Rightarrow> nat \<Rightarrow> hand list \<Rightarrow> string option \<Rightarrow> detector
     \<Rightarrow> (error + string option) \<times> detector" where
  "process_hands clk w [] gesture s = (Inr gesture, s)"
| "process_hands clk w (h # hs) gesture s =
     (case hand_step clk w h gesture s of
        (Inl e, s1) \<Rightarrow> (Inl e, s1)
      | (Inr g1, s1) \<Rightarrow> process_hands clk w hs g1 s1)"

subsection \<open>detect\<close>

text \<open>
  \<^verbatim>\<open>detect(self, frame)\<close>, lines 54-128. The result is the raised exception or the
  returned gesture (\<open>None\<close> for Python's \<^verbatim>\<open>None\<close>), with the detector as the call leaves it.
\<close>

definition detect :: "clock \<Rightarrow> frame \<Rightarrow> detector \<Rightarrow> (error + string option) \<times> detector" where
  "detect clk f s =
     (case multi_hand_landmarks f of
        None \<Rightarrow> (Inr None, s)
      | Some hand_landmarks \<Rightarrow>
          if hand_landmarks = [] then (Inr None, s)
          else if length hand_landmarks = 2
          then (case landmark_at (hand_landmarks ! 0) 0 of Inl e \<Rightarrow> (Inl e, s)
                | Inr hand1 \<Rightarrow>
                  (case landmark_at (hand_landmarks ! 1) 0 of Inl e \<Rightarrow> (Inl e, s)
                   | Inr hand2 \<Rightarrow>
                     (let d = wrist_dist (height f) (width f) hand1 hand2;
                          (cand, s1) = clap_observe d s
                      in if cand
                         then (let (ok, s2) = debounce clk ''clap_gesture'' s1
                               in if ok then (Inr (Some ''clap_gesture''), s2)
                                  else process_hands clk (width f) hand_landmarks None s2)
                         else process_hands clk (width f) hand_landmarks None s1)))
          else process_hands clk (width f) hand_landmarks None
                 (s\<lparr>clap_state := ''apart'', prev_dist := None\<rparr>))"

text \<open>Calling \<^verbatim>\<open>detect\<close> on one frame after the other, as the main loop does.\<close>

fun run :: "clock \<Rightarrow> frame list \<Rightarrow> detector \<Rightarrow> detector" where
  "run clk [] s = s"
| "run clk (f # fs) s = run clk fs (snd (detect clk f s))"

subsection \<open>Quantities and example inputs used in the statements\<close>

text \<open>The number of distances held; the absent attribute holds none.\<close>

definition hist_len :: "detector \<Rightarrow> nat" where
  "hist_len s = (case clap_dist_history s of None \<Rightarrow> 0 | Some xs \<Rightarrow> length xs)"

text \<open>
  The clap candidates of lines 70-79 when the distances of consecutive two-hand frames
  are \<open>ds\<close>.
\<close>

fun feed :: "real list \<Rightarrow> detector \<Rightarrow> bool list" where
  "feed [] s = []"
| "feed (d # ds) s = (let (c, s1) = clap_observe d s in c # feed ds s1)"

text \<open>
  An example skeleton of \<open>n\<close> points with its wrist at \<open>x0\<close>: the thumb is extended when
  \<open>thumb\<close> holds (tip 4 left of joint 3) and the four other fingers when \<open>rest\<close> holds
  (tips 8, 12, 16, 20 above their joints).
\<close>

definition mk_hand :: "nat \<Rightarrow> real \<Rightarrow> bool \<Rightarrow> bool \<Rightarrow> hand" where
  "mk_hand n x0 thumb rest =
     map (\<lambda>i. \<lparr>lm_x = (if i = 0 then x0 else if i = 4 \<and> thumb then 0 else 1 / 2),
              lm_y = (if rest \<and> (i = 8 \<or> i = 12 \<or> i = 16 \<or> i = 20) then 0 else 1 / 2)\<rparr>)
       [0..<n]"

text \<open>A 1000 x 1000 frame with two closed hands whose wrists are \<open>d\<close> pixels apart.\<close>

definition two_hands_at :: "real \<Rightarrow> frame" where
  "two_hands_at d =
     \<lparr>height = 1000, width = 1000,
      multi_hand_landmarks =
        Some [mk_hand 21 0 False False, mk_hand 21 (d / 1000) False False]\<rparr>"

text \<open>A frame in which the provider found no hand.\<close>

definition no_hands :: frame where
  "no_hands = \<lparr>height = 1000, width = 1000, multi_hand_landmarks = None\<rparr>"

text \<open>A frame of width \<open>w\<close> (and height 480) in which the provider found the hands \<open>hs\<close>.\<close>

definition frame_of :: "nat \<Rightarrow> hand list \<Rightarrow> frame" where
  "frame_of w hs = \<lparr>height = 480, width = w, multi_hand_landmarks = Some hs\<rparr>"

text \<open>
  Passing a recorded gesture on: a step that records no candidate returns the gesture it was
  given.
\<close>

definition keep :: "string option \<Rightarrow> (error + string option) \<times> detector
    \<Rightarrow> (error + string option) \<times> detector" where
  "keep g p = (case p of (Inr None, s) \<Rightarrow> (Inr g, s) | _ \<Rightarrow> p)"

text \<open>
  Between \<open>s\<close> and \<open>s'\<close> the clock was read zero or more times, the cooldown is the same, and
  the table entry of \<open>k\<close> is as before or holds one of the readings made in between.
\<close>

definition gate_step :: "clock \<Rightarrow> string \<Rightarrow> detector \<Rightarrow> detector \<Rightarrow> bool" where
  "gate_step clk k s s' \<longleftrightarrow>
     time_calls s \<le> time_calls s' \<and> debounce_time s' = debounce_time s \<and>
     (last_gesture_time s' k = last_gesture_time s k \<or>
      list_ex (\<lambda>n. last_gesture_time s' k = Some (clk n)) [time_calls s..<time_calls s'])"

text \<open>
  \<^verbatim>\<open>wave_start_pos\<close> exists whenever \<^verbatim>\<open>wave_prev_time\<close> does (the code sets them together).
\<close>

definition wave_ok :: "detector \<Rightarrow> bool" where
  "wave_ok s \<longleftrightarrow> wave_prev_time s = None \<or> wave_start_pos s \<noteq> None"

text \<open>An example clock: the first reading is 1000, every later one 1000.4.\<close>

definition clk_c :: clock where
  "clk_c n = (if n = 0 then 1000 else 1000 + 2 / 5)"

text \<open>A detector that has seen one frame with one open hand, its wrist at x = 0.3.\<close>

definition seen_open :: detector where
  "seen_open = run clk_c [frame_of 640 [mk_hand 21 (3 / 10) True True]] (init (1 / 2))"

section \<open>Lemmas\<close>

subsection \<open>The example inputs\<close>

lemma mk_hand_length [simp]: "length (mk_hand n x0 t r) = n"
  by (simp add: mk_hand_def)

lemma mk_hand_nth [simp]:
  "i < n \<Longrightarrow> mk_hand n x0 t r ! i =
     \<lparr>lm_x = (if i = 0 then x0 else if i = 4 \<and> t then 0 else 1 / 2),
      lm_y = (if r \<and> (i = 8 \<or> i = 12 \<or> i = 16 \<or> i = 20) then 0 else 1 / 2)\<rparr>"
  by (simp add: mk_hand_def)

lemma mk_hand_Cons:
  "0 < n \<Longrightarrow> mk_hand n x0 t r = \<lparr>lm_x = x0, lm_y = 1 / 2\<rparr> # tl (mk_hand n x0 t r)"
  by (cases n) (simp_all add: mk_hand_def upt_rec)

lemma hypot_0 [simp]: "hypot a 0 = \<bar>a\<bar>"
  by (simp add: hypot_def)

subsection \<open>Only the clap block touches the distance history\<close>

lemma time_time_hist [simp]: "clap_dist_history (snd (time_time clk s)) = clap_dist_history s"
  by (simp add: time_time_def)

lemma debounce_hist [simp]: "clap_dist_history (snd (debounce clk g s)) = clap_dist_history s"
  by (simp add: debounce_def time_time_def Let_def)

lemma thumbs_step_hist [simp]:
  "clap_dist_history (snd (thumbs_step clk fs g s)) = clap_dist_history s"
  by (simp add: thumbs_step_def split_beta Let_def)

lemma wave_step_hist [simp]:
  "clap_dist_history (snd (wave_step clk w h fs g s)) = clap_dist_history s"
  by (simp add: wave_step_def time_time_def split_beta Let_def split: option.splits sum.splits)

lemma hand_step_hist [simp]:
  "clap_dist_history (snd (hand_step clk w h g s)) = clap_dist_history s"
  by (simp add: hand_step_def split_beta Let_def split: sum.splits)

lemma process_hands_hist [simp]:
  "clap_dist_history (snd (process_hands clk w hs g s)) = clap_dist_history s"
proof (induction hs arbitrary: g s)
  case Nil
  show ?case by simp
next
  case (Cons h hs)
  show ?case
  proof (cases "hand_step clk w h g s")
    case (Pair r s1)
    have h1: "clap_dist_history s1 = clap_dist_history s"
      using hand_step_hist [of clk w h g s] Pair by simp
    show ?thesis
    proof (cases r)
      case (Inl e)
      with Pair h1 show ?thesis by simp
    next
      case (Inr g1)
      with Pair h1 Cons.IH [of g1 s1] show ?thesis by simp
    qed
  qed
qed

lemma clap_observe_hist [simp]:
  "clap_dist_history (snd (clap_observe d s)) = Some (append_trim (clap_dist_history s) d)"
  by (simp add: clap_observe_def Let_def)

text \<open>A two-hand frame with both wrists appends the wrist distance.\<close>

lemma detect_hist_two:
  assumes "multi_hand_landmarks f = Some [a # as, b # bs]"
  shows "clap_dist_history (snd (detect clk f s))
           = Some (append_trim (clap_dist_history s) (wrist_dist (height f) (width f) a b))"
  using assms
  by (simp add: detect_def landmark_at_def split_beta Let_def del: process_hands.simps)

text \<open>Any other frame leaves the history as it is.\<close>

lemma detect_hist_other:
  assumes "\<And>a as b bs. multi_hand_landmarks f \<noteq> Some [a # as, b # bs]"
  shows "clap_dist_history (snd (detect clk f s)) = clap_dist_history s"
proof (cases "multi_hand_landmarks f")
  case None
  then show ?thesis by (simp add: detect_def)
next
  case (Some hl)
  show ?thesis
  proof (cases "length hl = 2")
    case False
    with Some show ?thesis by (simp add: detect_def)
  next
    case True
    then obtain h1 h2 where hl: "hl = [h1, h2]"
      by (cases hl; cases "tl hl") auto
    from assms Some hl have "h1 = [] \<or> h2 = []"
      by (cases h1; cases h2) auto
    with Some hl show ?thesis
      by (auto simp: detect_def landmark_at_def split: sum.splits)
  qed
qed

lemma append_trim_length:
  "(case hist of None \<Rightarrow> 0 | Some xs \<Rightarrow> length xs) \<le> 10 \<Longrightarrow> length (append_trim hist d) \<le> 10"
  by (cases hist) (auto simp: append_trim_def Let_def)

lemma detect_hist_len:
  assumes "hist_len s \<le> 10"
  shows "hist_len (snd (detect clk f s)) \<le> 10"
proof (cases "\<exists>a as b bs. multi_hand_landmarks f = Some [a # as, b # bs]")
  case True
  then obtain a as b bs where "multi_hand_landmarks f = Some [a # as, b # bs]" by blast
  then have "clap_dist_history (snd (detect clk f s))
               = Some (append_trim (clap_dist_history s) (wrist_dist (height f) (width f) a b))"
    by (rule detect_hist_two)
  moreover have "length (append_trim (clap_dist_history s) (wrist_dist (height f) (width f) a b)) \<le> 10"
    using assms by (intro append_trim_length) (simp add: hist_len_def)
  ultimately show ?thesis by (simp add: hist_len_def)
next
  case False
  then have "clap_dist_history (snd (detect clk f s)) = clap_dist_history s"
    by (intro detect_hist_other) blast
  with assms show ?thesis by (simp add: hist_len_def)
qed

lemma run_hist_len: "hist_len s \<le> 10 \<Longrightarrow> hist_len (run clk fs s) \<le> 10"
  by (induction fs arbitrary: s) (simp_all add: detect_hist_len)

subsection \<open>The debounce gate in closed form\<close>

lemma debounce_eq:
  "debounce clk k s =
     (debounce_time s < clk (time_calls s) - last_time s k,
      if debounce_time s < clk (time_calls s) - last_time s k
      then s\<lparr>time_calls := Suc (time_calls s),
             last_gesture_time := (last_gesture_time s)(k \<mapsto> clk (time_calls s))\<rparr>
      else s\<lparr>time_calls := Suc (time_calls s)\<rparr>)"
  by (simp add: debounce_def time_time_def last_time_def)

subsection \<open>The gestures the loop over the hands can return\<close>

lemma thumbs_step_gesture:
  "fst (thumbs_step clk fs g s) = g \<or> fst (thumbs_step clk fs g s) = Some ''thumbs_up''"
  by (simp add: thumbs_step_def split_beta)

lemma wave_step_gesture:
  "fst (wave_step clk w h fs g s) = Inr g' \<Longrightarrow> g' = g \<or> g' = Some ''wave''"
  by (auto simp: wave_step_def split_beta Let_def split: if_splits option.splits sum.splits)

lemma hand_step_gesture:
  assumes "fst (hand_step clk w h g s) = Inr g'"
  shows "g' = g \<or> g' = Some ''thumbs_up'' \<or> g' = Some ''wave''"
proof (cases "fingers h")
  case (Inl e)
  with assms show ?thesis by (simp add: hand_step_def)
next
  case (Inr fs)
  with assms have
    "fst (wave_step clk w h fs (fst (thumbs_step clk fs g s)) (snd (thumbs_step clk fs g s))) = Inr g'"
    by (simp add: hand_step_def split_beta)
  then have "g' = fst (thumbs_step clk fs g s) \<or> g' = Some ''wave''"
    by (rule wave_step_gesture)
  with thumbs_step_gesture [of clk fs g s] show ?thesis by auto
qed

lemma process_hands_gesture:
  "fst (process_hands clk w hs g s) = Inr g' \<Longrightarrow>
   g' = g \<or> g' = Some ''thumbs_up'' \<or> g' = Some ''wave''"
proof (induction hs arbitrary: g s)
  case Nil
  then show ?case by simp
next
  case (Cons h hs)
  show ?case
  proof (cases "hand_step clk w h g s")
    case (Pair r s1)
    show ?thesis
    proof (cases r)
      case (Inl e)
      with Pair Cons.prems show ?thesis by simp
    next
      case (Inr g1)
      with Pair Cons.prems have "fst (process_hands clk w hs g1 s1) = Inr g'" by simp
      then have "g' = g1 \<or> g' = Some ''thumbs_up'' \<or> g' = Some ''wave''"
        by (rule Cons.IH)
      moreover from Pair Inr have "g1 = g \<or> g1 = Some ''thumbs_up'' \<or> g1 = Some ''wave''"
        using hand_step_gesture [of clk w h g s g1] by simp
      ultimately show ?thesis by auto
    qed
  qed
qed

lemma process_hands_no_clap:
  "fst (process_hands clk w hs None s) \<noteq> Inr (Some ''clap_gesture'')"
  using process_hands_gesture [of clk w hs None s "Some ''clap_gesture''"] by auto

subsection \<open>The two-hand branch\<close>

text \<open>The two-hand branch of \<^verbatim>\<open>detect\<close>, with both wrists present.\<close>

lemma detect_two:
  assumes "multi_hand_landmarks f = Some [a # as, b # bs]"
  shows "detect clk f s =
     (let d = wrist_dist (height f) (width f) a b; s1 = snd (clap_observe d s) in
      if fst (clap_observe d s)
      then (if fst (debounce clk ''clap_gesture'' s1)
            then (Inr (Some ''clap_gesture''), snd (debounce clk ''clap_gesture'' s1))
            else process_hands clk (width f) [a # as, b # bs] None
                   (snd (debounce clk ''clap_gesture'' s1)))
      else process_hands clk (width f) [a # as, b # bs] None s1)"
  using assms
  by (simp add: detect_def landmark_at_def split_beta Let_def del: process_hands.simps)

lemma append_trim_snoc:
  "append_trim hist d = (case hist of None \<Rightarrow> [] | Some ys \<Rightarrow> if length ys < 10 then ys else tl ys) @ [d]"
  by (cases hist) (auto simp: append_trim_def Let_def tl_append split: list.splits)

lemma was_far_snoc: "was_far (xs @ [d]) \<longleftrightarrow> (\<exists>e\<in>set (butlast xs). 200 < e)"
  by (simp add: was_far_def list_ex_iff butlast_conv_take)

lemma clap_observe_fields [simp]:
  "time_calls (snd (clap_observe d s)) = time_calls s"
  "debounce_time (snd (clap_observe d s)) = debounce_time s"
  "last_gesture_time (snd (clap_observe d s)) = last_gesture_time s"
  by (simp_all add: clap_observe_def Let_def)

text \<open>Only the clap block returns \<^verbatim>\<open>clap_gesture\<close>: a candidate that the gate lets through.\<close>

lemma detect_two_clap:
  assumes "multi_hand_landmarks f = Some [a # as, b # bs]"
  shows "fst (detect clk f s) = Inr (Some ''clap_gesture'') \<longleftrightarrow>
           fst (clap_observe (wrist_dist (height f) (width f) a b) s) \<and>
           fst (debounce clk ''clap_gesture''
                  (snd (clap_observe (wrist_dist (height f) (width f) a b) s)))"
proof -
  let ?d = "wrist_dist (height f) (width f) a b"
  let ?s1 = "snd (clap_observe ?d s)"
  show ?thesis
  proof (cases "fst (clap_observe ?d s)")
    case False
    then have "detect clk f s = process_hands clk (width f) [a # as, b # bs] None ?s1"
      by (simp only: detect_two [OF assms] Let_def if_False)
    with False show ?thesis by (simp only: process_hands_no_clap simp_thms)
  next
    case c: True
    show ?thesis
    proof (cases "fst (debounce clk ''clap_gesture'' ?s1)")
      case True
      with c have "detect clk f s
                     = (Inr (Some ''clap_gesture''), snd (debounce clk ''clap_gesture'' ?s1))"
        by (simp only: detect_two [OF assms] Let_def if_True)
      with c True show ?thesis by (simp only: fst_conv simp_thms)
    next
      case False
      with c have "detect clk f s
                     = process_hands clk (width f) [a # as, b # bs] None
                         (snd (debounce clk ''clap_gesture'' ?s1))"
        by (simp only: detect_two [OF assms] Let_def if_True if_False)
      with False show ?thesis by (simp only: process_hands_no_clap simp_thms)
    qed
  qed
qed

lemma clap_scenario:
  "feed [250, 230, 210, 180, 150, 130, 115, 90] (init dt)
     = [False, False, False, False, False, False, True, True]"
  by (simp add: clap_observe_def append_trim_def was_far_def init_def)

subsection \<open>Finger states and the length of the skeleton\<close>

lemma finger_bit_Inr: "finger_bit h tip = Inr b \<Longrightarrow> tip < length h"
  by (auto simp: finger_bit_def landmark_at_def split: if_splits)

lemma fingers_Inr_length: "fingers h = Inr fs \<Longrightarrow> 21 \<le> length h"
  by (auto simp: fingers_def split: sum.splits dest!: finger_bit_Inr)

lemma fingers_short: "length h < 21 \<Longrightarrow> fingers h = Inl IndexError"
  by (auto simp: fingers_def thumb_bit_def finger_bit_def landmark_at_def split: sum.splits)

lemma fingers_long:
  "21 \<le> length h \<Longrightarrow>
   fingers h = Inr [if lm_x (h ! 4) < lm_x (h ! 3) then 1 else 0,
                    if lm_y (h ! 8) < lm_y (h ! 6) then 1 else 0,
                    if lm_y (h ! 12) < lm_y (h ! 10) then 1 else 0,
                    if lm_y (h ! 16) < lm_y (h ! 14) then 1 else 0,
                    if lm_y (h ! 20) < lm_y (h ! 18) then 1 else 0]"
  by (simp add: fingers_def thumb_bit_def finger_bit_def landmark_at_def)

subsection \<open>More on the example inputs\<close>

lemma mk_hand_fingers [simp]:
  "21 \<le> n \<Longrightarrow> fingers (mk_hand n x0 t r)
     = Inr [if t then 1 else 0, if r then 1 else 0, if r then 1 else 0,
            if r then 1 else 0, if r then 1 else 0]"
  by (simp add: fingers_long)

lemma mk_hand_wrist [simp]: "0 < n \<Longrightarrow> landmark_at (mk_hand n x0 t r) 0 = Inr \<lparr>lm_x = x0, lm_y = 1 / 2\<rparr>"
  by (simp add: landmark_at_def)

text \<open>\<^verbatim>\<open>detect\<close> on a frame whose hand count is neither 0 nor 2.\<close>

lemma detect_other:
  "hl \<noteq> [] \<Longrightarrow> length hl \<noteq> 2 \<Longrightarrow>
   detect clk (frame_of w hl) s
     = process_hands clk w hl None (s\<lparr>clap_state := ''apart'', prev_dist := None\<rparr>)"
  by (simp add: detect_def frame_of_def)

lemma seen_open_eq:
  "seen_open = init (1 / 2)\<lparr>wave_prev_time := Some 1000, wave_start_pos := Some (3 / 10),
                            time_calls := 1\<rparr>"
  by (simp add: seen_open_def detect_other hand_step_def thumbs_step_def wave_step_def
      time_time_def init_def clk_c_def)

subsection \<open>The gesture variable in the loop\<close>

lemma keep_simps [simp]:
  "keep g (Inl e, s) = (Inl e, s)"
  "keep g (Inr None, s) = (Inr g, s)"
  "keep g (Inr (Some k), s) = (Inr (Some k), s)"
  by (simp_all add: keep_def)

lemma thumbs_step_acc:
  "thumbs_step clk fs g s =
     (case fst (thumbs_step clk fs None s) of None \<Rightarrow> g | Some k \<Rightarrow> Some k,
      snd (thumbs_step clk fs None s))"
  by (simp add: thumbs_step_def split_beta)

lemma wave_step_acc:
  "wave_step clk w h fs g s = keep g (wave_step clk w h fs None s)"
  by (simp add: wave_step_def split_beta Let_def time_time_def
      split: option.splits sum.splits)

lemma keep_keep: "keep g (keep (Some k) p) = keep (Some k) p"
  by (auto simp: keep_def split: prod.splits sum.splits option.splits)

lemma hand_step_acc: "hand_step clk w h g s = keep g (hand_step clk w h None s)"
proof (cases "fingers h")
  case (Inl e)
  then show ?thesis by (simp add: hand_step_def)
next
  case (Inr fs)
  obtain g0 s0 where t0: "thumbs_step clk fs None s = (g0, s0)" by fastforce
  then have t: "thumbs_step clk fs g s = (case g0 of None \<Rightarrow> g | Some k \<Rightarrow> Some k, s0)"
    using thumbs_step_acc [of clk fs g s] by simp
  show ?thesis
  proof (cases g0)
    case None
    with Inr t0 t show ?thesis
      by (simp add: hand_step_def wave_step_acc [of clk w h fs g])
  next
    case (Some k)
    with Inr t0 t show ?thesis
      by (simp add: hand_step_def wave_step_acc [of clk w h fs "Some k"] keep_keep)
  qed
qed

lemma process_hands_acc:
  "process_hands clk w hs g s = keep g (process_hands clk w hs None s)"
proof (induction hs arbitrary: g s)
  case Nil
  show ?case by simp
next
  case (Cons h hs)
  obtain r0 s1 where h0: "hand_step clk w h None s = (r0, s1)" by fastforce
  then have hg: "hand_step clk w h g s = keep g (r0, s1)"
    using hand_step_acc [of clk w h g s] by simp
  show ?case
  proof (cases r0)
    case (Inl e)
    with h0 hg show ?thesis by simp
  next
    case (Inr g0)
    show ?thesis
    proof (cases g0)
      case None
      with Inr h0 hg show ?thesis by (simp add: Cons.IH [of g])
    next
      case (Some k)
      with Inr h0 hg show ?thesis
        by (simp add: Cons.IH [of "Some k"] keep_keep)
    qed
  qed
qed

lemma process_hands_append:
  "process_hands clk w (hs1 @ hs2) g s =
     (case process_hands clk w hs1 g s of
        (Inl e, s1) \<Rightarrow> (Inl e, s1)
      | (Inr g1, s1) \<Rightarrow> process_hands clk w hs2 g1 s1)"
  by (induction hs1 arbitrary: g s) (auto split: prod.splits sum.splits)

subsection \<open>What the loop does to the debounce table\<close>

lemma gate_step_iff:
  "gate_step clk k s s' \<longleftrightarrow>
     time_calls s \<le> time_calls s' \<and> debounce_time s' = debounce_time s \<and>
     (last_gesture_time s' k = last_gesture_time s k \<or>
      (\<exists>n. time_calls s \<le> n \<and> n < time_calls s' \<and> last_gesture_time s' k = Some (clk n)))"
  by (auto simp: gate_step_def list_ex_iff)

lemma gate_step_refl [simp]: "gate_step clk k s s"
  by (simp add: gate_step_iff)

lemma gate_step_trans:
  assumes "gate_step clk k s s1" and "gate_step clk k s1 s2"
  shows "gate_step clk k s s2"
proof -
  from assms have le: "time_calls s \<le> time_calls s1" "time_calls s1 \<le> time_calls s2"
    and dt: "debounce_time s2 = debounce_time s"
    by (simp_all add: gate_step_iff)
  from assms(2) consider
      (same) "last_gesture_time s2 k = last_gesture_time s1 k"
    | (new) n where "time_calls s1 \<le> n" "n < time_calls s2" "last_gesture_time s2 k = Some (clk n)"
    by (auto simp: gate_step_iff)
  then show ?thesis
  proof cases
    case same
    from assms(1) consider
        (same1) "last_gesture_time s1 k = last_gesture_time s k"
      | (new1) n where "time_calls s \<le> n" "n < time_calls s1" "last_gesture_time s1 k = Some (clk n)"
      by (auto simp: gate_step_iff)
    then show ?thesis
    proof cases
      case same1
      with same le dt show ?thesis by (simp add: gate_step_iff)
    next
      case new1
      with same le(2) have "time_calls s \<le> n \<and> n < time_calls s2 \<and> last_gesture_time s2 k = Some (clk n)"
        by simp
      with le dt show ?thesis unfolding gate_step_iff by (meson order_trans)
    qed
  next
    case new
    with le(1) have "time_calls s \<le> n \<and> n < time_calls s2 \<and> last_gesture_time s2 k = Some (clk n)"
      by simp
    with le dt show ?thesis unfolding gate_step_iff by (meson order_trans)
  qed
qed

lemma gate_step_time_time: "gate_step clk k s (snd (time_time clk s))"
  by (simp add: gate_step_iff time_time_def)

lemma gate_step_debounce: "gate_step clk k s (snd (debounce clk k' s))"
proof -
  have "time_calls s \<le> time_calls s \<and> time_calls s < Suc (time_calls s)" by simp
  then show ?thesis
    by (auto simp: gate_step_iff debounce_eq)
qed

lemma gate_step_thumbs: "gate_step clk k s (snd (thumbs_step clk fs g s))"
  by (simp add: thumbs_step_def split_beta gate_step_debounce)

lemma gate_step_upd:
  "gate_step clk k s (s'\<lparr>wave_prev_time := a\<rparr>) = gate_step clk k s s'"
  "gate_step clk k s (s'\<lparr>wave_start_pos := b\<rparr>) = gate_step clk k s s'"
  by (simp_all add: gate_step_def)

lemma gate_step_wave: "gate_step clk k s (snd (wave_step clk w h fs g s))"
proof -
  let ?s1 = "snd (time_time clk s)"
  have a: "gate_step clk k s ?s1" by (rule gate_step_time_time)
  have b: "gate_step clk k s (snd (time_time clk ?s1))"
    by (rule gate_step_trans [OF a gate_step_time_time])
  have c: "gate_step clk k s (snd (debounce clk ''wave'' ?s1))"
    by (rule gate_step_trans [OF a gate_step_debounce])
  show ?thesis
    using a b c
    by (simp add: wave_step_def split_beta Let_def gate_step_upd
        split: option.splits sum.splits)
qed

lemma gate_step_hand: "gate_step clk k s (snd (hand_step clk w h g s))"
proof (cases "fingers h")
  case (Inl e)
  then show ?thesis by (simp add: hand_step_def)
next
  case (Inr fs)
  then show ?thesis
    by (simp add: hand_step_def split_beta)
       (rule gate_step_trans [OF gate_step_thumbs gate_step_wave])
qed

lemma gate_step_process_hands: "gate_step clk k s (snd (process_hands clk w hs g s))"
proof (induction hs arbitrary: g s)
  case Nil
  show ?case by simp
next
  case (Cons h hs)
  obtain r s1 where hs: "hand_step clk w h g s = (r, s1)" by fastforce
  then have a: "gate_step clk k s s1" using gate_step_hand [of clk k s w h g] by simp
  show ?case
  proof (cases r)
    case (Inl e)
    with hs a show ?thesis by simp
  next
    case (Inr g1)
    with hs have "process_hands clk w (h # hs) g s = process_hands clk w hs g1 s1" by simp
    with gate_step_trans [OF a Cons.IH [of s1 g1]] show ?thesis by simp
  qed
qed

text \<open>A hand that records a candidate has just written the table entry of that kind.\<close>

lemma hand_step_records:
  assumes "hand_step clk w h None s = (Inr (Some k), s1)"
  shows "0 < time_calls s1 \<and> time_calls s \<le> time_calls s1 - 1 \<and>
         last_gesture_time s1 k = Some (clk (time_calls s1 - 1)) \<and>
         debounce_time s1 = debounce_time s"
proof -
  obtain fs where fs: "fingers h = Inr fs"
    using assms by (cases "fingers h") (simp_all add: hand_step_def)
  show ?thesis
  proof (cases "fs = [1, 0, 0, 0, 0]")
    case True
    with assms fs show ?thesis
      by (auto simp: hand_step_def thumbs_step_def wave_step_def debounce_eq split_beta
          split: if_splits)
  next
    case False
    with assms fs have "wave_step clk w h fs None s = (Inr (Some k), s1)"
      by (simp add: hand_step_def thumbs_step_def)
    then show ?thesis
      by (auto simp: wave_step_def debounce_eq time_time_def split_beta Let_def
          split: if_splits option.splits sum.splits)
  qed
qed

subsection \<open>Skeletons that are too short or too long\<close>

lemma wave_ok_upd [simp]:
  "wave_ok (s\<lparr>time_calls := n\<rparr>) = wave_ok s"
  "wave_ok (s\<lparr>last_gesture_time := m\<rparr>) = wave_ok s"
  "wave_ok (s\<lparr>clap_dist_history := hh\<rparr>) = wave_ok s"
  "wave_ok (s\<lparr>clap_state := cs\<rparr>) = wave_ok s"
  "wave_ok (s\<lparr>prev_dist := pd\<rparr>) = wave_ok s"
  by (simp_all add: wave_ok_def)

lemma wave_ok_debounce [simp]: "wave_ok (snd (debounce clk k s)) = wave_ok s"
  by (simp add: debounce_eq)

lemma wave_ok_clap_observe [simp]: "wave_ok (snd (clap_observe d s)) = wave_ok s"
  by (simp add: clap_observe_def Let_def)

lemma wave_ok_thumbs [simp]: "wave_ok (snd (thumbs_step clk fs g s)) = wave_ok s"
  by (simp add: thumbs_step_def split_beta)

lemma wave_step_ok:
  assumes "wave_ok s" and "h \<noteq> []"
  shows "fst (wave_step clk w h fs g s) \<noteq> Inl AttributeError \<and>
         fst (wave_step clk w h fs g s) \<noteq> Inl IndexError \<and>
         wave_ok (snd (wave_step clk w h fs g s))"
proof -
  from assms(2) have l0: "landmark_at h 0 = Inr (h ! 0)" by (simp add: landmark_at_def)
  show ?thesis
    using assms(1)
    by (auto simp: wave_step_def l0 time_time_def split_beta Let_def wave_ok_def debounce_eq
        split: option.splits)
qed

lemma hand_step_ok:
  assumes "wave_ok s"
  shows "fst (hand_step clk w h g s) \<noteq> Inl AttributeError \<and>
         wave_ok (snd (hand_step clk w h g s))"
proof (cases "fingers h")
  case (Inl e)
  then have "length h < 21" using fingers_long [of h] by (cases "21 \<le> length h") auto
  then have "fingers h = Inl IndexError" by (rule fingers_short)
  with assms show ?thesis by (simp add: hand_step_def)
next
  case (Inr fs)
  then have "21 \<le> length h" by (rule fingers_Inr_length)
  then have ne: "h \<noteq> []" by auto
  have ok: "wave_ok (snd (thumbs_step clk fs g s))" using assms by simp
  show ?thesis
    using wave_step_ok [OF ok ne, of clk w fs "fst (thumbs_step clk fs g s)"] Inr
    by (simp add: hand_step_def split_beta)
qed

lemma hand_step_short: "length h < 21 \<Longrightarrow> hand_step clk w h g s = (Inl IndexError, s)"
  by (simp add: hand_step_def fingers_short)

lemma process_hands_short:
  assumes "wave_ok s" and "\<exists>h\<in>set hs. length h < 21"
  shows "fst (process_hands clk w hs g s) = Inl IndexError"
  using assms
proof (induction hs arbitrary: g s)
  case Nil
  then show ?case by simp
next
  case (Cons h hs)
  show ?case
  proof (cases "length h < 21")
    case True
    then show ?thesis by (simp add: hand_step_short)
  next
    case False
    with Cons.prems(2) have rest: "\<exists>h\<in>set hs. length h < 21" by auto
    obtain r s1 where st: "hand_step clk w h g s = (r, s1)" by fastforce
    with hand_step_ok [OF Cons.prems(1), of clk w h g]
    have nA: "r \<noteq> Inl AttributeError" and ok1: "wave_ok s1" by simp_all
    show ?thesis
    proof (cases r)
      case (Inl e)
      with nA have "e = IndexError" by (cases e) auto
      with Inl st show ?thesis by simp
    next
      case (Inr g1)
      with st Cons.IH [OF ok1 rest, of g1] show ?thesis by simp
    qed
  qed
qed

lemma hand_step_take:
  assumes "21 \<le> length h"
  shows "hand_step clk w h g s = hand_step clk w (take 21 h) g s"
proof -
  have f: "fingers (take 21 h) = fingers h"
    using assms by (simp add: fingers_long)
  have l: "landmark_at (take 21 h) 0 = landmark_at h 0"
    using assms by (auto simp: landmark_at_def)
  have ws: "wave_step clk w (take 21 h) fs g' s' = wave_step clk w h fs g' s'" for fs g' s'
    unfolding wave_step_def l ..
  show ?thesis unfolding hand_step_def f ws ..
qed

text \<open>The assumption on the wave attributes holds from construction on.\<close>

lemma wave_ok_init: "wave_ok (init dt)"
  by (simp add: wave_ok_def init_def)

lemma wave_ok_process_hands:
  "wave_ok s \<Longrightarrow> wave_ok (snd (process_hands clk w hs g s))"
proof (induction hs arbitrary: g s)
  case Nil
  then show ?case by simp
next
  case (Cons h hs)
  obtain r s1 where st: "hand_step clk w h g s = (r, s1)" by fastforce
  with hand_step_ok [OF Cons.prems, of clk w h g] have ok1: "wave_ok s1" by simp
  show ?case
  proof (cases r)
    case (Inl e)
    with st ok1 show ?thesis by simp
  next
    case (Inr g1)
    with st Cons.IH [OF ok1, of g1] show ?thesis by simp
  qed
qed

lemma wave_ok_detect:
  assumes "wave_ok s"
  shows "wave_ok (snd (detect clk f s))"
proof (cases "multi_hand_landmarks f")
  case None
  with assms show ?thesis by (simp add: detect_def)
next
  case (Some hl)
  have a: "wave_ok (snd (process_hands clk w hl None s'))" if "wave_ok s'" for w s'
    using that by (rule wave_ok_process_hands)
  show ?thesis
    using assms Some
    by (auto simp: detect_def split_beta Let_def a simp del: process_hands.simps
        split: sum.splits)
qed

lemma wave_ok_run: "wave_ok s \<Longrightarrow> wave_ok (run clk fs s)"
  by (induction fs arbitrary: s) (simp_all add: wave_ok_detect)

subsection \<open>Claps across a gap\<close>

lemma run_far_then_gap:
  "run (\<lambda>n. 1000) [two_hands_at 250, two_hands_at 150, no_hands] (init (1 / 2))
     = init (1 / 2)\<lparr>clap_dist_history := Some [250, 150]\<rparr>"
  using mk_hand_Cons [of 21 0 False False] mk_hand_Cons [of 21 "250 / 1000" False False]
    mk_hand_Cons [of 21 "150 / 1000" False False]
  by (simp add: two_hands_at_def no_hands_def detect_def wrist_dist_def py_int_def
      clap_observe_def append_trim_def was_far_def
      hand_step_def thumbs_step_def wave_step_def init_def)

lemma detect_not_two_no_clap:
  assumes "\<And>hl. multi_hand_landmarks f = Some hl \<Longrightarrow> length hl \<noteq> 2"
  shows "fst (detect clk f s) \<noteq> Inr (Some ''clap_gesture'')"
proof (cases "multi_hand_landmarks f")
  case None
  then show ?thesis by (simp add: detect_def)
next
  case (Some hl)
  with assms have "length hl \<noteq> 2" by simp
  with Some show ?thesis
    by (simp add: detect_def process_hands_no_clap)
qed

lemma clap_observe_needs_far:
  assumes "fst (clap_observe d s)"
  shows "\<exists>e\<in>set (butlast (case clap_dist_history s of None \<Rightarrow> [] | Some ys \<Rightarrow> ys)). 200 < e"
proof -
  define ys where "ys = (case clap_dist_history s of None \<Rightarrow> [] | Some ys \<Rightarrow> ys)"
  define xs where "xs = (if length ys < 10 then ys else tl ys)"
  have "append_trim (clap_dist_history s) d = xs @ [d]"
    by (simp add: append_trim_snoc xs_def ys_def split: option.splits)
  with assms have "\<exists>e\<in>set (butlast xs). 200 < e"
    by (simp add: clap_observe_def Let_def was_far_snoc)
  moreover have "set (butlast xs) \<subseteq> set (butlast ys)"
    by (cases ys) (auto simp: xs_def butlast_tl dest: in_set_butlastD split: if_splits)
  ultimately show ?thesis unfolding ys_def by blast
qed

subsection \<open>What touches the wave reference\<close>

lemma debounce_wave_fields [simp]:
  "wave_prev_time (snd (debounce clk k s)) = wave_prev_time s"
  "wave_start_pos (snd (debounce clk k s)) = wave_start_pos s"
  by (simp_all add: debounce_eq)

lemma clap_observe_wave_fields [simp]:
  "wave_prev_time (snd (clap_observe d s)) = wave_prev_time s"
  "wave_start_pos (snd (clap_observe d s)) = wave_start_pos s"
  by (simp_all add: clap_observe_def Let_def)

text \<open>A hand that does not show the open pattern leaves the wave reference alone.\<close>

lemma hand_step_not_open:
  assumes "fingers h \<noteq> Inr [1, 1, 1, 1, 1]"
  shows "wave_prev_time (snd (hand_step clk w h g s)) = wave_prev_time s \<and>
         wave_start_pos (snd (hand_step clk w h g s)) = wave_start_pos s"
proof (cases "fingers h")
  case (Inl e)
  then show ?thesis by (simp add: hand_step_def)
next
  case (Inr fs)
  with assms have "fs \<noteq> [1, 1, 1, 1, 1]" by simp
  with Inr show ?thesis
    by (simp add: hand_step_def wave_step_def thumbs_step_def split_beta)
qed

lemma process_hands_not_open:
  assumes "\<forall>h\<in>set hs. fingers h \<noteq> Inr [1, 1, 1, 1, 1]"
  shows "wave_prev_time (snd (process_hands clk w hs g s)) = wave_prev_time s \<and>
         wave_start_pos (snd (process_hands clk w hs g s)) = wave_start_pos s"
  using assms
proof (induction hs arbitrary: g s)
  case Nil
  show ?case by simp
next
  case (Cons h hs)
  obtain r s1 where st: "hand_step clk w h g s = (r, s1)" by fastforce
  from Cons.prems have "fingers h \<noteq> Inr [1, 1, 1, 1, 1]" by simp
  from hand_step_not_open [OF this, of clk w g s] st
  have eq: "wave_prev_time s1 = wave_prev_time s" "wave_start_pos s1 = wave_start_pos s"
    by simp_all
  show ?case
  proof (cases r)
    case (Inl e)
    with st eq show ?thesis by simp
  next
    case (Inr g1)
    from Cons.prems have "\<forall>h\<in>set hs. fingers h \<noteq> Inr [1, 1, 1, 1, 1]" by simp
    from Cons.IH [OF this, of g1 s1] st Inr eq show ?thesis by simp
  qed
qed

lemma detect_not_open:
  assumes "\<And>hl h. multi_hand_landmarks f = Some hl \<Longrightarrow> h \<in> set hl \<Longrightarrow>
             fingers h \<noteq> Inr [1, 1, 1, 1, 1]"
  shows "wave_prev_time (snd (detect clk f s)) = wave_prev_time s \<and>
         wave_start_pos (snd (detect clk f s)) = wave_start_pos s"
proof (cases "multi_hand_landmarks f")
  case None
  then show ?thesis by (simp add: detect_def)
next
  case (Some hl)
  with assms have no: "\<forall>h\<in>set hl. fingers h \<noteq> Inr [1, 1, 1, 1, 1]" by blast
  have a: "wave_prev_time (snd (process_hands clk w hl None s')) = wave_prev_time s'"
    and b: "wave_start_pos (snd (process_hands clk w hl None s')) = wave_start_pos s'" for w s'
    using process_hands_not_open [OF no, of clk w None s'] by simp_all
  show ?thesis
    using Some
    by (auto simp: detect_def split_beta Let_def a b simp del: process_hands.simps
        split: sum.splits)
qed

subsection \<open>Skeletons of 21 points or more\<close>

text \<open>A hand of 21 points or more is classified: its step raises nothing.\<close>

lemma hand_step_long:
  assumes "21 \<le> length h" and "wave_ok s"
  shows "\<exists>g'. fst (hand_step clk w h g s) = Inr g'"
proof -
  obtain fs where fs: "fingers h = Inr fs" using fingers_long [OF assms(1)] by simp
  from assms(1) have ne: "h \<noteq> []" by auto
  have ok: "wave_ok (snd (thumbs_step clk fs g s))" using assms(2) by simp
  have hs: "hand_step clk w h g s
              = wave_step clk w h fs (fst (thumbs_step clk fs g s)) (snd (thumbs_step clk fs g s))"
    by (simp add: hand_step_def fs split_beta)
  from wave_step_ok [OF ok ne, of clk w fs "fst (thumbs_step clk fs g s)"]
  have "fst (hand_step clk w h g s) \<noteq> Inl AttributeError"
    and "fst (hand_step clk w h g s) \<noteq> Inl IndexError"
    unfolding hs by simp_all
  then show ?thesis
    by (cases "fst (hand_step clk w h g s)") (metis error.exhaust, simp)
qed

lemma process_hands_long:
  assumes "\<forall>h\<in>set hs. 21 \<le> length h" and "wave_ok s"
  shows "\<exists>g'. fst (process_hands clk w hs g s) = Inr g'"
  using assms
proof (induction hs arbitrary: g s)
  case Nil
  show ?case by simp
next
  case (Cons h hs)
  from Cons.prems have len: "21 \<le> length h" and rest: "\<forall>h\<in>set hs. 21 \<le> length h"
    by simp_all
  obtain r s1 where st: "hand_step clk w h g s = (r, s1)" by fastforce
  from hand_step_long [OF len Cons.prems(2), of clk w g] st obtain g1 where r: "r = Inr g1"
    by auto
  from hand_step_ok [OF Cons.prems(2), of clk w h g] st have ok1: "wave_ok s1" by simp
  from Cons.IH [OF rest ok1, of g1] st r show ?case by simp
qed

lemma detect_long:
  assumes "multi_hand_landmarks f = Some hl" and "\<forall>h\<in>set hl. 21 \<le> length h"
    and "wave_ok s"
  shows "\<exists>g'. fst (detect clk f s) = Inr g'"
proof (cases "hl = []")
  case True
  with assms(1) show ?thesis by (simp add: detect_def)
next
  case ne: False
  have p: "\<exists>g'. fst (process_hands clk (width f) hl None s') = Inr g'" if "wave_ok s'" for s'
    by (rule process_hands_long [OF assms(2) that])
  show ?thesis
  proof (cases "length hl = 2")
    case False
    have "detect clk f s = process_hands clk (width f) hl None
            (s\<lparr>clap_state := ''apart'', prev_dist := None\<rparr>)"
      using assms(1) ne False by (simp add: detect_def)
    moreover have "wave_ok (s\<lparr>clap_state := ''apart'', prev_dist := None\<rparr>)"
      using assms(3) by simp
    ultimately show ?thesis using p by simp
  next
    case True
    then obtain h1 h2 where hl: "hl = [h1, h2]"
      by (cases hl; cases "tl hl") auto
    with assms(2) have "h1 \<noteq> []" "h2 \<noteq> []" by auto
    then obtain a as b bs where h12: "h1 = a # as" "h2 = b # bs"
      by (cases h1; cases h2) auto
    with assms(1) hl have two: "multi_hand_landmarks f = Some [a # as, b # bs]" by simp
    let ?d = "wrist_dist (height f) (width f) a b"
    let ?s1 = "snd (clap_observe ?d s)"
    let ?s2 = "snd (debounce clk ''clap_gesture'' ?s1)"
    have ok1: "wave_ok ?s1" and ok2: "wave_ok ?s2" using assms(3) by simp_all
    from p [OF ok1] p [OF ok2] show ?thesis
      unfolding detect_two [OF two] Let_def hl h12
      by (auto simp del: process_hands.simps)
  qed
qed

section \<open>The claims\<close>

subsection \<open>C7: the distance history holds at most ten entries, oldest out first\<close>

text \<open>
  C7. Starting from a new detector, after any sequence of calls of \<^verbatim>\<open>detect\<close> (two-hand
  frames or others, however many) the clap distance history holds at most 10 entries.
  When a two-hand frame arrives with 10 entries held, the oldest entry is the one dropped
  and the new wrist distance is put at the end; with fewer than 10 held, the distance is
  appended and nothing is dropped.
\<close>

theorem clap_history_bound:
  "hist_len (run clk fs (init dt)) \<le> 10 \<and>
   (multi_hand_landmarks f = Some [a # as, b # bs] \<and> clap_dist_history s = Some (x # xs)
      \<and> length xs = 9 \<longrightarrow>
    clap_dist_history (snd (detect clk f s))
      = Some (xs @ [wrist_dist (height f) (width f) a b])) \<and>
   (multi_hand_landmarks f = Some [a # as, b # bs] \<and> clap_dist_history s = Some ys
      \<and> length ys < 10 \<longrightarrow>
    clap_dist_history (snd (detect clk f s))
      = Some (ys @ [wrist_dist (height f) (width f) a b]))"
proof -
  have "hist_len (init dt) \<le> 10" by (simp add: hist_len_def init_def)
  then have "hist_len (run clk fs (init dt)) \<le> 10" by (rule run_hist_len)
  then show ?thesis
    by (simp add: detect_hist_two append_trim_def Let_def)
qed

theorem clap_history_bound_witness:
  "hist_len (run (\<lambda>n. 1000) (replicate 12 (two_hands_at 90)) (init (1 / 2))) \<le> 10 \<and>
   clap_dist_history (snd (detect (\<lambda>n. 1000) (two_hands_at 90)
       (init (1 / 2)\<lparr>clap_dist_history := Some [1, 2, 3, 4, 5, 6, 7, 8, 9, 10]\<rparr>)))
     = Some [2, 3, 4, 5, 6, 7, 8, 9, 10, 90] \<and>
   clap_dist_history (snd (detect (\<lambda>n. 1000) (two_hands_at 90)
       (init (1 / 2)\<lparr>clap_dist_history := Some [250, 150]\<rparr>)))
     = Some [250, 150, 90]"
  using clap_history_bound [where clk = "\<lambda>n. 1000" and fs = "replicate 12 (two_hands_at 90)"
      and dt = "1 / 2" and f = "two_hands_at 90"
      and a = "\<lparr>lm_x = 0, lm_y = 1 / 2\<rparr>" and as = "tl (mk_hand 21 0 False False)"
      and b = "\<lparr>lm_x = 90 / 1000, lm_y = 1 / 2\<rparr>"
      and bs = "tl (mk_hand 21 (90 / 1000) False False)"
      and s = "init (1 / 2)\<lparr>clap_dist_history := Some [1, 2, 3, 4, 5, 6, 7, 8, 9, 10]\<rparr>"
      and x = 1 and xs = "[2, 3, 4, 5, 6, 7, 8, 9, 10]" and ys = "[]"]
    clap_history_bound [where clk = "\<lambda>n. 1000" and fs = "[]"
      and dt = "1 / 2" and f = "two_hands_at 90"
      and a = "\<lparr>lm_x = 0, lm_y = 1 / 2\<rparr>" and as = "tl (mk_hand 21 0 False False)"
      and b = "\<lparr>lm_x = 90 / 1000, lm_y = 1 / 2\<rparr>"
      and bs = "tl (mk_hand 21 (90 / 1000) False False)"
      and s = "init (1 / 2)\<lparr>clap_dist_history := Some [250, 150]\<rparr>"
      and x = 1 and xs = "[]" and ys = "[250, 150]"]
    mk_hand_Cons [of 21 0 False False] mk_hand_Cons [of 21 "90 / 1000" False False]
  by (simp add: two_hands_at_def wrist_dist_def py_int_def)

subsection \<open>C9: a frame without hands\<close>

text \<open>
  C9. When the provider reports no hand (\<^verbatim>\<open>multi_hand_landmarks\<close> is \<^verbatim>\<open>None\<close> or empty),
  \<^verbatim>\<open>detect\<close> returns no event and the detector is exactly as before the call: history,
  clap state fields, wave tracking state and debounce table; the clock is not read either.
\<close>

theorem detect_no_hands:
  "multi_hand_landmarks f = None \<or> multi_hand_landmarks f = Some [] \<Longrightarrow>
   detect clk f s = (Inr None, s)"
  by (auto simp: detect_def)

theorem detect_no_hands_witness:
  "detect (\<lambda>n. 1000) no_hands (init (1 / 2)) = (Inr None, init (1 / 2))"
  using detect_no_hands [where f = no_hands and clk = "\<lambda>n. 1000" and s = "init (1 / 2)"]
  by (simp add: no_hands_def)

subsection \<open>C5: the debounce gate\<close>

text \<open>
  C5, as stated, fails: the table is read with the default 0, not minus infinity, so the
  first candidate of a kind is refused when the clock reads no more than the cooldown.
  Here the clock reads 0.3 on a new detector with the cooldown 0.5.
\<close>

theorem first_candidate_counterexample:
  "\<not> fst (debounce (\<lambda>n. 3 / 10) ''wave'' (init (1 / 2)))"
  by (simp add: debounce_eq init_def last_time_def)

text \<open>
  C5, amended. \<^verbatim>\<open>_debounce(k)\<close> at the clock reading \<open>now\<close> returns true exactly when
  \<open>now - table.get(k, 0) > debounce_time\<close> (0.5 unless the constructor is given another);
  when it does, it sets \<open>table[k] = now\<close>, and otherwise leaves the table as it is. The first
  candidate of a kind is allowed exactly when \<open>now > debounce_time\<close>. When a candidate
  is allowed at \<open>t\<close>, the next candidate of that kind, at \<open>t + \<Delta>\<close>, is allowed exactly when
  \<open>\<Delta> > debounce_time\<close>.
\<close>

theorem debounce_gate:
  assumes "debounce clk k s = (b, s')"
  shows "(b \<longleftrightarrow> debounce_time s
              < clk (time_calls s) - (case last_gesture_time s k of None \<Rightarrow> 0 | Some t \<Rightarrow> t)) \<and>
         s' = (if b then s\<lparr>time_calls := Suc (time_calls s),
                          last_gesture_time := (last_gesture_time s)(k \<mapsto> clk (time_calls s))\<rparr>
               else s\<lparr>time_calls := Suc (time_calls s)\<rparr>) \<and>
         (last_gesture_time s k = None \<longrightarrow> (b \<longleftrightarrow> debounce_time s < clk (time_calls s))) \<and>
         (b \<and> clk (time_calls s') = clk (time_calls s) + \<Delta> \<longrightarrow>
            (fst (debounce clk k s') \<longleftrightarrow> debounce_time s < \<Delta>))"
  using assms by (auto simp: debounce_eq last_time_def split: if_splits)

theorem debounce_gate_witness:
  "fst (debounce (\<lambda>n. 1000 + real n / 5) ''wave'' (init (1 / 2))) \<and>
   last_gesture_time (snd (debounce (\<lambda>n. 1000 + real n / 5) ''wave'' (init (1 / 2)))) ''wave''
     = Some 1000 \<and>
   \<not> fst (debounce (\<lambda>n. 1000 + real n / 5) ''wave''
           (snd (debounce (\<lambda>n. 1000 + real n / 5) ''wave'' (init (1 / 2))))) \<and>
   fst (debounce (\<lambda>n. 1000 + real n * 3 / 5) ''wave''
         (snd (debounce (\<lambda>n. 1000 + real n * 3 / 5) ''wave'' (init (1 / 2)))))"
  using debounce_gate [where clk = "\<lambda>n. 1000 + real n / 5" and k = "''wave''"
      and s = "init (1 / 2)" and b = True and \<Delta> = "1 / 5"
      and s' = "snd (debounce (\<lambda>n. 1000 + real n / 5) ''wave'' (init (1 / 2)))"]
    debounce_gate [where clk = "\<lambda>n. 1000 + real n * 3 / 5" and k = "''wave''"
      and s = "init (1 / 2)" and b = True and \<Delta> = "3 / 5"
      and s' = "snd (debounce (\<lambda>n. 1000 + real n * 3 / 5) ''wave'' (init (1 / 2)))"]
  by (simp add: debounce_eq init_def last_time_def)

subsection \<open>C6: the far-then-close rule\<close>

text \<open>
  C6, as stated, fails in its example: fed the eight distances, the rule raises a candidate
  already on the frame with distance 115 (115 < 120, and the history without its last two
  entries, 250 230 210 180 150, holds values over 200), not on the frame with 90 alone.
\<close>

theorem clap_scenario_counterexample:
  "feed [250, 230, 210, 180, 150, 130, 115, 90] (init (1 / 2))
     \<noteq> [False, False, False, False, False, False, False, True]"
  by (simp add: clap_observe_def append_trim_def was_far_def init_def)

text \<open>
  C6, amended. For a two-hand frame with wrist distance \<open>d\<close>, the history after the call
  ends with \<open>d\<close> (after the append and the trim to ten), and a clap candidate is raised
  exactly when an entry of that history other than its two most recent exceeds 200 and
  \<open>d < 120\<close>; \<^verbatim>\<open>detect\<close> returns \<^verbatim>\<open>clap_gesture\<close> exactly when the candidate is raised and
  the debounce gate allows it. Fed the distances 250, 230, 210, 180, 150, 130, 115, 90, a
  new detector raises a candidate on the frames with 115 and with 90, and on no other.
\<close>

theorem clap_rule:
  assumes "multi_hand_landmarks f = Some [a # as, b # bs]"
    and "d = wrist_dist (height f) (width f) a b"
    and "detect clk f s = (r, s')"
  shows "(\<exists>xs. clap_dist_history s' = Some (xs @ [d]) \<and>
            length (xs @ [d]) \<le> max 10 (hist_len s) \<and>
            (fst (clap_observe d s) \<longleftrightarrow> (\<exists>e\<in>set (butlast xs). 200 < e) \<and> d < 120) \<and>
            (r = Inr (Some ''clap_gesture'') \<longleftrightarrow>
               fst (clap_observe d s) \<and>
               debounce_time s < clk (time_calls s) - last_time s ''clap_gesture'')) \<and>
         feed [250, 230, 210, 180, 150, 130, 115, 90] (init dt)
           = [False, False, False, False, False, False, True, True]"
proof -
  define xs where "xs = (case clap_dist_history s of None \<Rightarrow> []
                          | Some ys \<Rightarrow> if length ys < 10 then ys else tl ys)"
  have at: "append_trim (clap_dist_history s) d = xs @ [d]"
    by (simp add: append_trim_snoc xs_def)
  have "clap_dist_history (snd (detect clk f s)) = Some (append_trim (clap_dist_history s) d)"
    unfolding assms(2) by (rule detect_hist_two [OF assms(1)])
  then have h: "clap_dist_history s' = Some (xs @ [d])"
    by (simp add: assms(3) at)
  have len: "length (xs @ [d]) \<le> max 10 (hist_len s)"
    by (auto simp: xs_def hist_len_def split: option.splits)
  have c: "fst (clap_observe d s) \<longleftrightarrow> (\<exists>e\<in>set (butlast xs). 200 < e) \<and> d < 120"
    by (simp add: clap_observe_def Let_def at was_far_snoc)
  have "fst (detect clk f s) = Inr (Some ''clap_gesture'') \<longleftrightarrow>
           fst (clap_observe d s) \<and> fst (debounce clk ''clap_gesture'' (snd (clap_observe d s)))"
    unfolding assms(2) by (rule detect_two_clap [OF assms(1)])
  moreover have "fst (debounce clk ''clap_gesture'' (snd (clap_observe d s)))
                   \<longleftrightarrow> debounce_time s < clk (time_calls s) - last_time s ''clap_gesture''"
    by (simp add: debounce_eq last_time_def)
  ultimately have r: "r = Inr (Some ''clap_gesture'') \<longleftrightarrow>
             fst (clap_observe d s) \<and>
             debounce_time s < clk (time_calls s) - last_time s ''clap_gesture''"
    by (simp add: assms(3))
  have "\<exists>xs. clap_dist_history s' = Some (xs @ [d]) \<and>
            length (xs @ [d]) \<le> max 10 (hist_len s) \<and>
            (fst (clap_observe d s) \<longleftrightarrow> (\<exists>e\<in>set (butlast xs). 200 < e) \<and> d < 120) \<and>
            (r = Inr (Some ''clap_gesture'') \<longleftrightarrow>
               fst (clap_observe d s) \<and>
               debounce_time s < clk (time_calls s) - last_time s ''clap_gesture'')"
  proof (intro exI conjI)
    show "clap_dist_history s' = Some (xs @ [d])" by (rule h)
    show "length (xs @ [d]) \<le> max 10 (hist_len s)" by (rule len)
    show "fst (clap_observe d s) \<longleftrightarrow> (\<exists>e\<in>set (butlast xs). 200 < e) \<and> d < 120" by (rule c)
    show "r = Inr (Some ''clap_gesture'') \<longleftrightarrow>
               fst (clap_observe d s) \<and>
               debounce_time s < clk (time_calls s) - last_time s ''clap_gesture''" by (rule r)
  qed
  then show ?thesis using clap_scenario [of dt] by (rule conjI)
qed

theorem clap_rule_witness:
  "fst (detect (\<lambda>n. 1000) (two_hands_at 90) (init (1 / 2)\<lparr>clap_dist_history := Some [250, 150]\<rparr>))
     = Inr (Some ''clap_gesture'') \<and>
   feed [250, 230, 210, 180, 150, 130, 115, 90] (init (1 / 2))
     = [False, False, False, False, False, False, True, True]"
  using clap_rule [where clk = "\<lambda>n. 1000" and f = "two_hands_at 90" and dt = "1 / 2"
      and a = "\<lparr>lm_x = 0, lm_y = 1 / 2\<rparr>" and as = "tl (mk_hand 21 0 False False)"
      and b = "\<lparr>lm_x = 90 / 1000, lm_y = 1 / 2\<rparr>"
      and bs = "tl (mk_hand 21 (90 / 1000) False False)"
      and s = "init (1 / 2)\<lparr>clap_dist_history := Some [250, 150]\<rparr>" and d = 90
      and r = "fst (detect (\<lambda>n. 1000) (two_hands_at 90)
                     (init (1 / 2)\<lparr>clap_dist_history := Some [250, 150]\<rparr>))"
      and s' = "snd (detect (\<lambda>n. 1000) (two_hands_at 90)
                     (init (1 / 2)\<lparr>clap_dist_history := Some [250, 150]\<rparr>))"]
    mk_hand_Cons [of 21 0 False False] mk_hand_Cons [of 21 "90 / 1000" False False]
  by (auto simp add: two_hands_at_def wrist_dist_def py_int_def clap_observe_def append_trim_def
        was_far_def init_def last_time_def)

subsection \<open>C3: which hand's candidate is returned\<close>

text \<open>
  C3, as stated, fails: \<^verbatim>\<open>gesture\<close> is overwritten by every hand that records a candidate.
  In the frame below the first hand shows thumbs-up and passes the gate, the second is an
  open hand that has moved 128 pixels from the reference within 0.4 s; \<^verbatim>\<open>detect\<close> returns
  the second hand's \<^verbatim>\<open>wave\<close>.
\<close>

theorem first_hand_counterexample:
  "fst (hand_step clk_c 640 (mk_hand 21 (1 / 10) True False) None
          (snd (clap_observe 256 seen_open)))
     = Inr (Some ''thumbs_up'') \<and>
   fst (detect clk_c
          (frame_of 640 [mk_hand 21 (1 / 10) True False, mk_hand 21 (1 / 2) True True])
          seen_open)
     = Inr (Some ''wave'')"
  using mk_hand_Cons [of 21 "1 / 10" True False] mk_hand_Cons [of 21 "1 / 2" True True]
  by (simp add: seen_open_eq detect_def frame_of_def wrist_dist_def py_int_def
      clap_observe_def append_trim_def was_far_def
      hand_step_def thumbs_step_def wave_step_def time_time_def
      debounce_eq last_time_def init_def clk_c_def)

text \<open>
  C3, amended. When several hands of a frame record a candidate, the loop returns the
  candidate of the last such hand in the provider's order: if hand \<open>h\<close> records \<open>k\<close> and
  no hand after it records one, the result is \<open>k\<close>, whatever the hands before \<open>h\<close>
  recorded.
\<close>

theorem last_hand_wins:
  assumes "process_hands clk w hs1 g s = (Inr g1, s1)"
    and "hand_step clk w h None s1 = (Inr (Some k), s2)"
    and "process_hands clk w hs2 None s2 = (Inr None, s3)"
  shows "process_hands clk w (hs1 @ h # hs2) g s = (Inr (Some k), s3)"
proof -
  have "hand_step clk w h g1 s1 = (Inr (Some k), s2)"
    using hand_step_acc [of clk w h g1 s1] assms(2) by simp
  moreover have "process_hands clk w hs2 (Some k) s2 = (Inr (Some k), s3)"
    using process_hands_acc [of clk w hs2 "Some k" s2] assms(3) by simp
  ultimately show ?thesis
    using assms(1) by (simp add: process_hands_append)
qed

theorem last_hand_wins_witness:
  "fst (process_hands clk_c 640
          [mk_hand 21 (1 / 10) True False, mk_hand 21 (1 / 2) True True] None seen_open)
     = Inr (Some ''wave'')"
  using last_hand_wins [where clk = clk_c and w = 640
      and ?hs1.0 = "[mk_hand 21 (1 / 10) True False]" and g = None and s = seen_open
      and ?g1.0 = "Some ''thumbs_up''"
      and ?s1.0 = "snd (process_hands clk_c 640 [mk_hand 21 (1 / 10) True False] None seen_open)"
      and h = "mk_hand 21 (1 / 2) True True" and k = "''wave''"
      and ?s2.0 = "snd (hand_step clk_c 640 (mk_hand 21 (1 / 2) True True) None
                     (snd (process_hands clk_c 640 [mk_hand 21 (1 / 10) True False] None seen_open)))"
      and ?hs2.0 = "[]"
      and ?s3.0 = "snd (hand_step clk_c 640 (mk_hand 21 (1 / 2) True True) None
                     (snd (process_hands clk_c 640 [mk_hand 21 (1 / 10) True False] None seen_open)))"]
  by (simp add: seen_open_eq hand_step_def thumbs_step_def wave_step_def time_time_def
      debounce_eq last_time_def init_def clk_c_def)

subsection \<open>C4: a wave that fires\<close>

text \<open>
  C4, as stated, fails: when the wave fires, the reference position and time are left as
  they were. Here an open hand is first seen at x = 0.3 at time 1000 and then at x = 0.5
  at time 1000.4 in a frame 640 wide: \<^verbatim>\<open>wave\<close> is returned, and the reference is still
  x = 0.3 at time 1000.
\<close>

theorem wave_reseed_counterexample:
  "fst (detect clk_c (frame_of 640 [mk_hand 21 (1 / 2) True True]) seen_open)
     = Inr (Some ''wave'') \<and>
   wave_start_pos (snd (detect clk_c (frame_of 640 [mk_hand 21 (1 / 2) True True]) seen_open))
     = Some (3 / 10) \<and>
   wave_prev_time (snd (detect clk_c (frame_of 640 [mk_hand 21 (1 / 2) True True]) seen_open))
     = Some 1000"
  by (simp add: seen_open_eq detect_other hand_step_def thumbs_step_def wave_step_def
        time_time_def debounce_eq last_time_def init_def clk_c_def)

text \<open>
  C4, amended. Whenever the tracker has a reference, an open hand is seen less than 1.0 s
  after the reference time and \<open>|wrist.x - reference_x| * frame_width > 60\<close>, the tracker
  raises a wave candidate (returned as \<^verbatim>\<open>wave\<close> when the debounce gate allows it) and
  leaves the reference position and time unchanged. An open hand seen inside the window
  that has moved 60 pixels or less raises nothing and leaves the reference unchanged too.
  An open hand seen 1.0 s or more after the reference time raises nothing and reseeds the
  reference with its wrist position and a new clock reading. A hand that is not open leaves
  the reference unchanged, and so does a whole frame without an open hand.
\<close>

theorem wave_fire_keeps_reference:
  assumes "wave_prev_time s = Some pt" and "wave_start_pos s = Some sp"
    and "hand_step clk w h g s = (r, s')"
  shows "(fingers h = Inr [1, 1, 1, 1, 1] \<and> clk (time_calls s) - pt < 1 \<and>
            60 < \<bar>lm_x (h ! 0) - sp\<bar> * real w \<longrightarrow>
          wave_prev_time s' = Some pt \<and> wave_start_pos s' = Some sp \<and>
          r = Inr (if debounce_time s < clk (Suc (time_calls s)) - last_time s ''wave''
                   then Some ''wave'' else g)) \<and>
         (fingers h = Inr [1, 1, 1, 1, 1] \<and> clk (time_calls s) - pt < 1 \<and>
            \<bar>lm_x (h ! 0) - sp\<bar> * real w \<le> 60 \<longrightarrow>
          wave_prev_time s' = Some pt \<and> wave_start_pos s' = Some sp \<and> r = Inr g) \<and>
         (fingers h = Inr [1, 1, 1, 1, 1] \<and> 1 \<le> clk (time_calls s) - pt \<longrightarrow>
          wave_prev_time s' = Some (clk (Suc (time_calls s))) \<and>
          wave_start_pos s' = Some (lm_x (h ! 0)) \<and> r = Inr g) \<and>
         (fingers h \<noteq> Inr [1, 1, 1, 1, 1] \<longrightarrow>
          wave_prev_time s' = Some pt \<and> wave_start_pos s' = Some sp) \<and>
         ((\<forall>h'\<in>set hl. fingers h' \<noteq> Inr [1, 1, 1, 1, 1]) \<longrightarrow>
          wave_prev_time (snd (detect clk (frame_of w hl) s)) = Some pt \<and>
          wave_start_pos (snd (detect clk (frame_of w hl) s)) = Some sp)"
proof -
  have opn: "wave_step clk w h [1, 1, 1, 1, 1] g s = (r, s') \<and> landmark_at h 0 = Inr (h ! 0)"
    if f: "fingers h = Inr [1, 1, 1, 1, 1]"
  proof -
    from f have "21 \<le> length h" by (rule fingers_Inr_length)
    then have "landmark_at h 0 = Inr (h ! 0)" by (auto simp: landmark_at_def)
    moreover have "hand_step clk w h g s = wave_step clk w h [1, 1, 1, 1, 1] g s"
      by (simp add: hand_step_def f thumbs_step_def)
    ultimately show ?thesis using assms(3) by simp
  qed
  have fire: "wave_prev_time s' = Some pt \<and> wave_start_pos s' = Some sp \<and>
          r = Inr (if debounce_time s < clk (Suc (time_calls s)) - last_time s ''wave''
                   then Some ''wave'' else g)"
    if "fingers h = Inr [1, 1, 1, 1, 1]" "clk (time_calls s) - pt < 1"
       "60 < \<bar>lm_x (h ! 0) - sp\<bar> * real w"
    using opn [OF that(1)] that(2,3) assms(1,2)
    by (auto simp: wave_step_def time_time_def debounce_eq last_time_def Let_def)
  have small: "wave_prev_time s' = Some pt \<and> wave_start_pos s' = Some sp \<and> r = Inr g"
    if "fingers h = Inr [1, 1, 1, 1, 1]" "clk (time_calls s) - pt < 1"
       "\<bar>lm_x (h ! 0) - sp\<bar> * real w \<le> 60"
    using opn [OF that(1)] that(2,3) assms(1,2)
    by (auto simp: wave_step_def time_time_def Let_def)
  have late: "wave_prev_time s' = Some (clk (Suc (time_calls s))) \<and>
          wave_start_pos s' = Some (lm_x (h ! 0)) \<and> r = Inr g"
    if "fingers h = Inr [1, 1, 1, 1, 1]" "1 \<le> clk (time_calls s) - pt"
    using opn [OF that(1)] that(2) assms(1,2)
    by (auto simp: wave_step_def time_time_def Let_def)
  have other: "wave_prev_time s' = Some pt \<and> wave_start_pos s' = Some sp"
    if "fingers h \<noteq> Inr [1, 1, 1, 1, 1]"
    using hand_step_not_open [OF that, of clk w g s] assms by simp
  have frame: "wave_prev_time (snd (detect clk (frame_of w hl) s)) = Some pt \<and>
          wave_start_pos (snd (detect clk (frame_of w hl) s)) = Some sp"
    if "\<forall>h'\<in>set hl. fingers h' \<noteq> Inr [1, 1, 1, 1, 1]"
    using detect_not_open [of "frame_of w hl" clk s] that assms(1,2)
    by (simp add: frame_of_def)
  from fire small late other frame show ?thesis by blast
qed

theorem wave_fire_keeps_reference_witness:
  "(fst (hand_step clk_c 640 (mk_hand 21 (1 / 2) True True) None seen_open)
      = Inr (Some ''wave'') \<and>
    wave_prev_time (snd (hand_step clk_c 640 (mk_hand 21 (1 / 2) True True) None seen_open))
      = Some 1000 \<and>
    wave_start_pos (snd (hand_step clk_c 640 (mk_hand 21 (1 / 2) True True) None seen_open))
      = Some (3 / 10)) \<and>
   (fst (hand_step clk_c 640 (mk_hand 21 (7 / 20) True True) None seen_open) = Inr None \<and>
    wave_prev_time (snd (hand_step clk_c 640 (mk_hand 21 (7 / 20) True True) None seen_open))
      = Some 1000 \<and>
    wave_start_pos (snd (hand_step clk_c 640 (mk_hand 21 (7 / 20) True True) None seen_open))
      = Some (3 / 10)) \<and>
   (fst (hand_step (\<lambda>n. 1000 + 2 * real n) 640 (mk_hand 21 (1 / 2) True True) None seen_open)
      = Inr None \<and>
    wave_prev_time (snd (hand_step (\<lambda>n. 1000 + 2 * real n) 640 (mk_hand 21 (1 / 2) True True)
                           None seen_open))
      = Some 1004 \<and>
    wave_start_pos (snd (hand_step (\<lambda>n. 1000 + 2 * real n) 640 (mk_hand 21 (1 / 2) True True)
                           None seen_open))
      = Some (1 / 2)) \<and>
   (wave_prev_time (snd (detect clk_c (frame_of 640 [mk_hand 21 (1 / 2) True False]) seen_open))
      = Some 1000 \<and>
    wave_start_pos (snd (detect clk_c (frame_of 640 [mk_hand 21 (1 / 2) True False]) seen_open))
      = Some (3 / 10))"
proof (intro conjI)
  note fire = wave_fire_keeps_reference [where clk = clk_c and w = 640
      and h = "mk_hand 21 (1 / 2) True True" and s = seen_open and pt = 1000 and sp = "3 / 10"
      and g = None and hl = "[mk_hand 21 (1 / 2) True False]"
      and r = "fst (hand_step clk_c 640 (mk_hand 21 (1 / 2) True True) None seen_open)"
      and s' = "snd (hand_step clk_c 640 (mk_hand 21 (1 / 2) True True) None seen_open)"]
  note small = wave_fire_keeps_reference [where clk = clk_c and w = 640
      and h = "mk_hand 21 (7 / 20) True True" and s = seen_open and pt = 1000 and sp = "3 / 10"
      and g = None and hl = "[]"
      and r = "fst (hand_step clk_c 640 (mk_hand 21 (7 / 20) True True) None seen_open)"
      and s' = "snd (hand_step clk_c 640 (mk_hand 21 (7 / 20) True True) None seen_open)"]
  note late = wave_fire_keeps_reference [where clk = "\<lambda>n. 1000 + 2 * real n" and w = 640
      and h = "mk_hand 21 (1 / 2) True True" and s = seen_open and pt = 1000 and sp = "3 / 10"
      and g = None and hl = "[]"
      and r = "fst (hand_step (\<lambda>n. 1000 + 2 * real n) 640 (mk_hand 21 (1 / 2) True True) None
                     seen_open)"
      and s' = "snd (hand_step (\<lambda>n. 1000 + 2 * real n) 640 (mk_hand 21 (1 / 2) True True) None
                     seen_open)"]
  show "fst (hand_step clk_c 640 (mk_hand 21 (1 / 2) True True) None seen_open)
      = Inr (Some ''wave'')"
    using fire by (simp add: seen_open_eq init_def clk_c_def last_time_def)
  show "wave_prev_time (snd (hand_step clk_c 640 (mk_hand 21 (1 / 2) True True) None seen_open))
      = Some 1000"
    using fire by (simp add: seen_open_eq init_def clk_c_def last_time_def)
  show "wave_start_pos (snd (hand_step clk_c 640 (mk_hand 21 (1 / 2) True True) None seen_open))
      = Some (3 / 10)"
    using fire by (simp add: seen_open_eq init_def clk_c_def last_time_def)
  show "fst (hand_step clk_c 640 (mk_hand 21 (7 / 20) True True) None seen_open) = Inr None"
    using small by (simp add: seen_open_eq init_def clk_c_def)
  show "wave_prev_time (snd (hand_step clk_c 640 (mk_hand 21 (7 / 20) True True) None seen_open))
      = Some 1000"
    using small by (simp add: seen_open_eq init_def clk_c_def)
  show "wave_start_pos (snd (hand_step clk_c 640 (mk_hand 21 (7 / 20) True True) None seen_open))
      = Some (3 / 10)"
    using small by (simp add: seen_open_eq init_def clk_c_def)
  show "fst (hand_step (\<lambda>n. 1000 + 2 * real n) 640 (mk_hand 21 (1 / 2) True True) None seen_open)
      = Inr None"
    using late by (simp add: seen_open_eq init_def)
  show "wave_prev_time (snd (hand_step (\<lambda>n. 1000 + 2 * real n) 640 (mk_hand 21 (1 / 2) True True)
                           None seen_open))
      = Some 1004"
    using late by (simp add: seen_open_eq init_def)
  show "wave_start_pos (snd (hand_step (\<lambda>n. 1000 + 2 * real n) 640 (mk_hand 21 (1 / 2) True True)
                           None seen_open))
      = Some (1 / 2)"
    using late by (simp add: seen_open_eq init_def)
  show "wave_prev_time (snd (detect clk_c (frame_of 640 [mk_hand 21 (1 / 2) True False]) seen_open))
      = Some 1000"
    using fire by (simp add: seen_open_eq init_def clk_c_def last_time_def)
  show "wave_start_pos (snd (detect clk_c (frame_of 640 [mk_hand 21 (1 / 2) True False]) seen_open))
      = Some (3 / 10)"
    using fire by (simp add: seen_open_eq init_def clk_c_def last_time_def)
qed

subsection \<open>C10: a displaced candidate still takes its debounce slot\<close>

text \<open>
  C10. When a hand records a candidate of kind \<open>k\<close> (it passed the gate), the table entry
  of \<open>k\<close> is the clock reading of that moment, and when the loop over the frame's hands
  ends, whatever it returns (another kind, or an exception), the entry of \<open>k\<close> is a clock
  reading made from that hand on; a candidate of kind \<open>k\<close> no later than the cooldown after
  that reading is refused.
\<close>

theorem gate_slot_consumed:
  assumes "hand_step clk w h None s = (Inr (Some k), s1)"
    and "process_hands clk w (h # hs) g s = (r, s')"
  shows "last_gesture_time s1 k = Some (clk (time_calls s1 - 1)) \<and>
         (\<exists>n. time_calls s \<le> n \<and> n < time_calls s' \<and>
              last_gesture_time s' k = Some (clk n) \<and>
              (\<forall>now. now \<le> clk n + debounce_time s \<longrightarrow> \<not> fst (debounce (\<lambda>i. now) k s')))"
proof -
  from assms(1) have rec: "0 < time_calls s1" "time_calls s \<le> time_calls s1 - 1"
    "last_gesture_time s1 k = Some (clk (time_calls s1 - 1))"
    "debounce_time s1 = debounce_time s"
    using hand_step_records [OF assms(1)] by simp_all
  have "hand_step clk w h g s = (Inr (Some k), s1)"
    using hand_step_acc [of clk w h g s] assms(1) by simp
  with assms(2) have rest: "process_hands clk w hs (Some k) s1 = (r, s')" by simp
  have gs: "gate_step clk k s1 s'"
    using gate_step_process_hands [of clk k s1 w hs "Some k"] rest by simp
  then have dt: "debounce_time s' = debounce_time s" and le: "time_calls s1 \<le> time_calls s'"
    using rec(4) by (simp_all add: gate_step_iff)
  from gs consider
      (same) "last_gesture_time s' k = last_gesture_time s1 k"
    | (new) n where "time_calls s1 \<le> n" "n < time_calls s'" "last_gesture_time s' k = Some (clk n)"
    by (auto simp: gate_step_iff)
  then obtain n where n: "time_calls s \<le> n" "n < time_calls s'"
      "last_gesture_time s' k = Some (clk n)"
  proof cases
    case same
    with rec le have "time_calls s \<le> time_calls s1 - 1 \<and> time_calls s1 - 1 < time_calls s'
        \<and> last_gesture_time s' k = Some (clk (time_calls s1 - 1))"
      by auto
    with that show ?thesis by blast
  next
    case new
    with rec have "time_calls s \<le> n" by linarith
    with new that show ?thesis by blast
  qed
  have "\<forall>now. now \<le> clk n + debounce_time s \<longrightarrow> \<not> fst (debounce (\<lambda>i. now) k s')"
    using n(3) dt by (simp add: debounce_eq last_time_def)
  with n rec(3) show ?thesis by blast
qed

theorem gate_slot_consumed_witness:
  "fst (detect clk_c
          (frame_of 640 [mk_hand 21 (1 / 10) True False, mk_hand 21 (1 / 2) True True])
          seen_open)
     = Inr (Some ''wave'') \<and>
   last_gesture_time (snd (detect clk_c
          (frame_of 640 [mk_hand 21 (1 / 10) True False, mk_hand 21 (1 / 2) True True])
          seen_open)) ''thumbs_up''
     = Some (1000 + 2 / 5) \<and>
   \<not> fst (debounce (\<lambda>i. 1000 + 4 / 5) ''thumbs_up'' (snd (detect clk_c
          (frame_of 640 [mk_hand 21 (1 / 10) True False, mk_hand 21 (1 / 2) True True])
          seen_open)))"
  using gate_slot_consumed [where clk = clk_c and w = 640
      and h = "mk_hand 21 (1 / 10) True False" and hs = "[mk_hand 21 (1 / 2) True True]"
      and s = "snd (clap_observe 256 seen_open)" and k = "''thumbs_up''" and g = None
      and ?s1.0 = "snd (hand_step clk_c 640 (mk_hand 21 (1 / 10) True False) None
                     (snd (clap_observe 256 seen_open)))"
      and r = "fst (process_hands clk_c 640
                 [mk_hand 21 (1 / 10) True False, mk_hand 21 (1 / 2) True True] None
                 (snd (clap_observe 256 seen_open)))"
      and s' = "snd (process_hands clk_c 640
                 [mk_hand 21 (1 / 10) True False, mk_hand 21 (1 / 2) True True] None
                 (snd (clap_observe 256 seen_open)))"]
    mk_hand_Cons [of 21 "1 / 10" True False] mk_hand_Cons [of 21 "1 / 2" True True]
  by (simp add: seen_open_eq detect_def frame_of_def wrist_dist_def py_int_def
      clap_observe_def append_trim_def was_far_def
      hand_step_def thumbs_step_def wave_step_def time_time_def
      debounce_eq last_time_def init_def clk_c_def)

subsection \<open>C1: frames without exactly two hands and the clap history\<close>

text \<open>
  C1, as stated, fails: no call of \<^verbatim>\<open>detect\<close> empties the distance history. Here two
  two-hand frames with distances 250 and 150 are followed by a frame without hands and a
  single two-hand frame with distance 90: the history still holds 250 and 150 after the
  frame without hands, and the single two-hand frame returns \<^verbatim>\<open>clap_gesture\<close>.
\<close>

theorem clap_reset_counterexample:
  "clap_dist_history
     (run (\<lambda>n. 1000) [two_hands_at 250, two_hands_at 150, no_hands] (init (1 / 2)))
     = Some [250, 150] \<and>
   fst (detect (\<lambda>n. 1000) (two_hands_at 90)
          (run (\<lambda>n. 1000) [two_hands_at 250, two_hands_at 150, no_hands] (init (1 / 2))))
     = Inr (Some ''clap_gesture'')"
  unfolding run_far_then_gap
  using mk_hand_Cons [of 21 0 False False] mk_hand_Cons [of 21 "90 / 1000" False False]
  by (simp add: two_hands_at_def detect_def wrist_dist_def py_int_def
      clap_observe_def append_trim_def was_far_def debounce_eq last_time_def init_def)

text \<open>
  C1, amended. A frame whose hand count is not exactly 2 never returns \<^verbatim>\<open>clap_gesture\<close>
  itself, and a frame with no hands leaves the clap distance history exactly as it was. A
  two-hand frame raises a clap candidate only if the history held before it contains an
  entry over 200 other than its most recent one: on an empty or absent history a single
  two-hand frame raises none, but a far sample recorded before a frame without hands still
  counts.
\<close>

theorem clap_after_gap:
  "((case multi_hand_landmarks f of None \<Rightarrow> True | Some hl \<Rightarrow> length hl \<noteq> 2) \<longrightarrow>
      fst (detect clk f s) \<noteq> Inr (Some ''clap_gesture'')) \<and>
   (multi_hand_landmarks f = None \<or> multi_hand_landmarks f = Some [] \<longrightarrow>
      clap_dist_history (snd (detect clk f s)) = clap_dist_history s) \<and>
   (fst (clap_observe d s) \<longrightarrow>
      (\<exists>e\<in>set (butlast (case clap_dist_history s of None \<Rightarrow> [] | Some ys \<Rightarrow> ys)). 200 < e))"
proof (intro conjI impI)
  assume "case multi_hand_landmarks f of None \<Rightarrow> True | Some hl \<Rightarrow> length hl \<noteq> 2"
  then have "\<And>hl. multi_hand_landmarks f = Some hl \<Longrightarrow> length hl \<noteq> 2" by simp
  then show "fst (detect clk f s) \<noteq> Inr (Some ''clap_gesture'')"
    by (rule detect_not_two_no_clap)
next
  assume "multi_hand_landmarks f = None \<or> multi_hand_landmarks f = Some []"
  then show "clap_dist_history (snd (detect clk f s)) = clap_dist_history s"
    by (auto simp: detect_def)
next
  assume "fst (clap_observe d s)"
  then show "\<exists>e\<in>set (butlast (case clap_dist_history s of None \<Rightarrow> [] | Some ys \<Rightarrow> ys)). 200 < e"
    by (rule clap_observe_needs_far)
qed

theorem clap_after_gap_witness:
  "fst (detect (\<lambda>n. 1000) no_hands (init (1 / 2)\<lparr>clap_dist_history := Some [250, 150]\<rparr>))
     \<noteq> Inr (Some ''clap_gesture'') \<and>
   clap_dist_history
     (snd (detect (\<lambda>n. 1000) no_hands (init (1 / 2)\<lparr>clap_dist_history := Some [250, 150]\<rparr>)))
     = Some [250, 150] \<and>
   fst (clap_observe 90 (init (1 / 2)\<lparr>clap_dist_history := Some [250, 150]\<rparr>)) \<and>
   \<not> fst (clap_observe 90 (init (1 / 2)))"
  using clap_after_gap [where clk = "\<lambda>n. 1000" and f = no_hands and d = 90
      and s = "init (1 / 2)\<lparr>clap_dist_history := Some [250, 150]\<rparr>"]
    clap_after_gap [where clk = "\<lambda>n. 1000" and f = no_hands and d = 90 and s = "init (1 / 2)"]
  by (simp add: no_hands_def init_def clap_observe_def append_trim_def was_far_def)

subsection \<open>C2: the distance fed to the clap history\<close>

text \<open>
  C2, as stated, fails: \<^verbatim>\<open>detect\<close> measures the wrists, and \<^verbatim>\<open>_get_min_distance\<close>, which
  measures the palm centres, is never called. In the frame below the wrists are 100 pixels
  apart and the palm centres 50.
\<close>

theorem palm_distance_counterexample:
  "clap_dist_history (snd (detect (\<lambda>n. 1000) (two_hands_at 100) (init (1 / 2)))) = Some [100] \<and>
   get_min_distance [mk_hand 21 0 False False, mk_hand 21 (100 / 1000) False False] (1000, 1000)
     = Inr (Some 50)"
  using detect_hist_two [where clk = "\<lambda>n. 1000" and f = "two_hands_at 100"
      and s = "init (1 / 2)"
      and a = "\<lparr>lm_x = 0, lm_y = 1 / 2\<rparr>" and as = "tl (mk_hand 21 0 False False)"
      and b = "\<lparr>lm_x = 100 / 1000, lm_y = 1 / 2\<rparr>"
      and bs = "tl (mk_hand 21 (100 / 1000) False False)"]
    mk_hand_Cons [of 21 0 False False] mk_hand_Cons [of 21 "100 / 1000" False False]
  by (simp add: two_hands_at_def wrist_dist_def py_int_def append_trim_def init_def
      get_min_distance_def palm_def landmark_at_def)

text \<open>
  C2, amended. For every two-hand frame in which both hands have a wrist landmark, the
  distance appended to the clap history is the Euclidean distance between the two wrists
  (landmark 0 of each hand), each coordinate scaled to pixels by the frame's width or
  height and truncated to an integer.
\<close>

theorem wrist_distance_fed:
  assumes "multi_hand_landmarks f = Some [a # as, b # bs]"
  shows "clap_dist_history (snd (detect clk f s))
           = Some (append_trim (clap_dist_history s) (sqrt (real_of_int
               ((py_int (lm_x b * real (width f)) - py_int (lm_x a * real (width f)))\<^sup>2 +
                (py_int (lm_y b * real (height f)) - py_int (lm_y a * real (height f)))\<^sup>2))))"
proof -
  have "wrist_dist (height f) (width f) a b = sqrt (real_of_int
               ((py_int (lm_x b * real (width f)) - py_int (lm_x a * real (width f)))\<^sup>2 +
                (py_int (lm_y b * real (height f)) - py_int (lm_y a * real (height f)))\<^sup>2))"
    by (simp add: wrist_dist_def hypot_def Let_def)
  then show ?thesis
    using detect_hist_two [OF assms, of clk s] by simp
qed

theorem wrist_distance_fed_witness:
  "clap_dist_history (snd (detect (\<lambda>n. 1000) (two_hands_at 100) (init (1 / 2)))) = Some [100]"
  using wrist_distance_fed [where clk = "\<lambda>n. 1000" and f = "two_hands_at 100"
      and s = "init (1 / 2)"
      and a = "\<lparr>lm_x = 0, lm_y = 1 / 2\<rparr>" and as = "tl (mk_hand 21 0 False False)"
      and b = "\<lparr>lm_x = 100 / 1000, lm_y = 1 / 2\<rparr>"
      and bs = "tl (mk_hand 21 (100 / 1000) False False)"]
    mk_hand_Cons [of 21 0 False False] mk_hand_Cons [of 21 "100 / 1000" False False]
  by (simp add: two_hands_at_def py_int_def append_trim_def init_def)

subsection \<open>C8: skeletons without exactly 21 points\<close>

text \<open>
  C8, as stated, fails: the length of a skeleton is never checked. A hand of 22 points
  showing thumbs-up is classified and \<^verbatim>\<open>thumbs_up\<close> returned; and two hands of one point
  each, 90 pixels apart after far samples, return \<^verbatim>\<open>clap_gesture\<close>.
\<close>

theorem skeleton_length_counterexample:
  "fst (detect (\<lambda>n. 1000) (frame_of 640 [mk_hand 22 (1 / 2) True False]) (init (1 / 2)))
     = Inr (Some ''thumbs_up'') \<and>
   fst (detect (\<lambda>n. 1000)
          (frame_of 1000 [mk_hand 1 0 False False, mk_hand 1 (9 / 100) False False])
          (init (1 / 2)\<lparr>clap_dist_history := Some [250, 150]\<rparr>))
     = Inr (Some ''clap_gesture'')"
  using mk_hand_Cons [of 1 0 False False] mk_hand_Cons [of 1 "9 / 100" False False]
  by (simp add: detect_def frame_of_def wrist_dist_def py_int_def
      clap_observe_def append_trim_def was_far_def
      hand_step_def thumbs_step_def wave_step_def time_time_def
      debounce_eq last_time_def init_def)

text \<open>
  C8, amended. \<^verbatim>\<open>detect\<close> does not check the length of a skeleton and has no error class
  of its own. When a frame holds a hand with fewer than 21 points, the call raises
  Python's IndexError (at the first such hand the loop reaches), unless the frame has two
  hands and the clap block returns \<^verbatim>\<open>clap_gesture\<close> first. When every hand of the frame
  has 21 points or more, the call raises nothing. A hand with more than 21 points is
  classified from its landmarks 3, 4, 6, 8, 10, 12, 14, 16, 18 and 20, its step raises
  nothing, and it does exactly what the step on its first 21 points does.
\<close>

theorem no_length_check:
  assumes "multi_hand_landmarks f = Some hl" and "wave_ok s"
  shows "((\<exists>h\<in>set hl. length h < 21) \<longrightarrow>
            fst (detect clk f s) = Inl IndexError \<or>
            (length hl = 2 \<and> fst (detect clk f s) = Inr (Some ''clap_gesture''))) \<and>
         ((\<forall>h\<in>set hl. 21 \<le> length h) \<longrightarrow> (\<exists>g'. fst (detect clk f s) = Inr g')) \<and>
         (\<forall>h\<in>set hl. 21 \<le> length h \<longrightarrow>
            fingers h = Inr [if lm_x (h ! 4) < lm_x (h ! 3) then 1 else 0,
                             if lm_y (h ! 8) < lm_y (h ! 6) then 1 else 0,
                             if lm_y (h ! 12) < lm_y (h ! 10) then 1 else 0,
                             if lm_y (h ! 16) < lm_y (h ! 14) then 1 else 0,
                             if lm_y (h ! 20) < lm_y (h ! 18) then 1 else 0] \<and>
            (\<forall>w g s1. hand_step clk w h g s1 = hand_step clk w (take 21 h) g s1 \<and>
                      (wave_ok s1 \<longrightarrow> (\<exists>g'. fst (hand_step clk w h g s1) = Inr g'))))"
proof (intro conjI impI)
  assume short: "\<exists>h\<in>set hl. length h < 21"
  then have ne: "hl \<noteq> []" by auto
  show "fst (detect clk f s) = Inl IndexError \<or>
        (length hl = 2 \<and> fst (detect clk f s) = Inr (Some ''clap_gesture''))"
  proof (cases "length hl = 2")
    case False
    have "detect clk f s = process_hands clk (width f) hl None
            (s\<lparr>clap_state := ''apart'', prev_dist := None\<rparr>)"
      using assms(1) ne False by (simp add: detect_def)
    moreover have "wave_ok (s\<lparr>clap_state := ''apart'', prev_dist := None\<rparr>)"
      using assms(2) by simp
    ultimately show ?thesis using process_hands_short [OF _ short] by simp
  next
    case True
    then obtain h1 h2 where hl: "hl = [h1, h2]"
      by (cases hl; cases "tl hl") auto
    show ?thesis
    proof (cases "h1 = [] \<or> h2 = []")
      case True
      with assms(1) hl show ?thesis
        by (auto simp: detect_def landmark_at_def split: sum.splits)
    next
      case False
      then obtain a as b bs where h12: "h1 = a # as" "h2 = b # bs"
        by (cases h1; cases h2) auto
      with assms(1) hl have two: "multi_hand_landmarks f = Some [a # as, b # bs]" by simp
      let ?d = "wrist_dist (height f) (width f) a b"
      let ?s1 = "snd (clap_observe ?d s)"
      let ?s2 = "snd (debounce clk ''clap_gesture'' ?s1)"
      have ok1: "wave_ok ?s1" and ok2: "wave_ok ?s2" using assms(2) by simp_all
      have p1: "fst (process_hands clk (width f) hl None ?s1) = Inl IndexError"
        by (rule process_hands_short [OF ok1 short])
      have p2: "fst (process_hands clk (width f) hl None ?s2) = Inl IndexError"
        by (rule process_hands_short [OF ok2 short])
      show ?thesis
        using p1 p2 True unfolding detect_two [OF two] Let_def hl h12
        by (simp del: process_hands.simps)
    qed
  qed
next
  assume "\<forall>h\<in>set hl. 21 \<le> length h"
  then show "\<exists>g'. fst (detect clk f s) = Inr g'"
    by (rule detect_long [OF assms(1) _ assms(2)])
next
  show "\<forall>h\<in>set hl. 21 \<le> length h \<longrightarrow>
            fingers h = Inr [if lm_x (h ! 4) < lm_x (h ! 3) then 1 else 0,
                             if lm_y (h ! 8) < lm_y (h ! 6) then 1 else 0,
                             if lm_y (h ! 12) < lm_y (h ! 10) then 1 else 0,
                             if lm_y (h ! 16) < lm_y (h ! 14) then 1 else 0,
                             if lm_y (h ! 20) < lm_y (h ! 18) then 1 else 0] \<and>
            (\<forall>w g s1. hand_step clk w h g s1 = hand_step clk w (take 21 h) g s1 \<and>
                      (wave_ok s1 \<longrightarrow> (\<exists>g'. fst (hand_step clk w h g s1) = Inr g')))"
    using hand_step_take hand_step_long fingers_long by blast
qed

theorem no_length_check_witness:
  "fst (detect (\<lambda>n. 1000) (frame_of 640 [mk_hand 20 (1 / 2) True False]) (init (1 / 2)))
     = Inl IndexError \<and>
   fst (detect (\<lambda>n. 1000) (frame_of 640 [mk_hand 22 (1 / 2) True False]) (init (1 / 2)))
     = Inr (Some ''thumbs_up'') \<and>
   fingers (mk_hand 22 (1 / 2) True False) = Inr [1, 0, 0, 0, 0] \<and>
   hand_step (\<lambda>n. 1000) 640 (mk_hand 22 (1 / 2) True False) None (init (1 / 2))
     = hand_step (\<lambda>n. 1000) 640 (take 21 (mk_hand 22 (1 / 2) True False)) None (init (1 / 2))"
  using no_length_check [where clk = "\<lambda>n. 1000"
      and f = "frame_of 640 [mk_hand 20 (1 / 2) True False]"
      and hl = "[mk_hand 20 (1 / 2) True False]" and s = "init (1 / 2)"]
    no_length_check [where clk = "\<lambda>n. 1000"
      and f = "frame_of 640 [mk_hand 22 (1 / 2) True False]"
      and hl = "[mk_hand 22 (1 / 2) True False]" and s = "init (1 / 2)"]
  by (simp add: frame_of_def wave_ok_def init_def)
     (simp add: detect_def hand_step_def thumbs_step_def wave_step_def debounce_eq
        last_time_def)

end
